theory Spec2Isabelle
  imports Main "HOL-Library.Stream"
begin

section \<open>Python values and exceptions\<close>

text \<open>
  The values that travel through \<^verbatim>\<open>kernel.py\<close> are what \<^verbatim>\<open>json.loads\<close> and the
  Jupyter message deserialiser produce: \<^verbatim>\<open>None\<close>, booleans, integers, strings, lists
  and dictionaries with string keys (\<open>JDict\<close> lists the items of the dictionary).
  Python does not check the dataclass annotations, so a field of \<^verbatim>\<open>KernelState\<close> or
  of a message content holds any such value. Floats are left out: nothing in
  \<^verbatim>\<open>kernel.py\<close> computes with one, and a float where a process id or a path is
  expected is a \<^verbatim>\<open>TypeError\<close> like a string or a list there.
\<close>

datatype json = JNull | JBool bool | JInt int | JStr string
  | JList "json list" | JDict "(string \<times> json) list"

text \<open>
  The exception classes the source names or can meet. \<^verbatim>\<open>ProcessLookupError\<close> is a
  subclass of \<^verbatim>\<open>OSError\<close>; \<^verbatim>\<open>Empty\<close> is \<^verbatim>\<open>queue.Empty\<close>, raised by a receive that
  timed out. \<^verbatim>\<open>JSONDecodeError\<close> and \<^verbatim>\<open>UnicodeDecodeError\<close> are both subclasses of
  \<^verbatim>\<open>ValueError\<close> and neither is one of the other; \<^verbatim>\<open>OverflowError\<close> is what
  \<^verbatim>\<open>os.kill\<close> raises for a process id beyond a C \<^verbatim>\<open>int\<close>; \<^verbatim>\<open>RecursionError\<close> is what
  \<^verbatim>\<open>json.loads\<close> raises on a text nested too deeply. \<^verbatim>\<open>OtherError\<close> stands for every
  other subclass of \<^verbatim>\<open>Exception\<close>.
\<close>

datatype exn = Empty | KeyError string | TypeError | JSONDecodeError
  | OSError | ProcessLookupError | RuntimeError string
  | UnicodeDecodeError | OverflowError | RecursionError | OtherError string

text \<open>\<^verbatim>\<open>except (OSError, ProcessLookupError)\<close>\<close>

fun is_OSError :: "exn \<Rightarrow> bool" where
  "is_OSError OSError = True"
| "is_OSError ProcessLookupError = True"
| "is_OSError _ = False"

text \<open>\<^verbatim>\<open>except (json.JSONDecodeError, KeyError, TypeError)\<close>\<close>

fun is_decode_error :: "exn \<Rightarrow> bool" where
  "is_decode_error JSONDecodeError = True"
| "is_decode_error (KeyError _) = True"
| "is_decode_error TypeError = True"
| "is_decode_error _ = False"

text \<open>\<^verbatim>\<open>d[k]\<close> on a dictionary: a missing key raises \<^verbatim>\<open>KeyError\<close>.\<close>

definition getitem :: "(string \<rightharpoonup> json) \<Rightarrow> string \<Rightarrow> exn + json" where
  "getitem d k = (case d k of None \<Rightarrow> Inl (KeyError k) | Some v \<Rightarrow> Inr v)"

text \<open>
  \<^verbatim>\<open>timeout or default\<close>: \<^verbatim>\<open>None\<close> and \<^verbatim>\<open>0\<close> are falsy. The timeout is a number of
  seconds; the command line passes an integer or \<^verbatim>\<open>None\<close>.
\<close>

definition timeout_or :: "int option \<Rightarrow> int \<Rightarrow> int" where
  "timeout_or timeout dflt =
     (case timeout of None \<Rightarrow> dflt | Some t \<Rightarrow> if t = 0 then dflt else t)"

section \<open>The session store\<close>

text \<open>
  \<^verbatim>\<open>KernelState\<close>, the persisted session record. The state file is seen through
  \<^verbatim>\<open>read_text\<close> and \<^verbatim>\<open>json.loads\<close>. \<^verbatim>\<open>read_text\<close> raises on a file it cannot read
  (\<^verbatim>\<open>UnicodeDecodeError\<close> on bytes that are not UTF-8, \<^verbatim>\<open>OSError\<close> on a file it may
  not open) or yields its text. A text is empty, not JSON, JSON nested too deeply for
  \<^verbatim>\<open>json.loads\<close>, or the text of a value. The world is the state file (absent, or its
  content) and the rest of the machine (processes, other files, running kernels),
  which only the operating system and the Jupyter libraries touch.
\<close>

record KernelState =
  connection_file :: json
  kernel_name :: json
  pid :: json

datatype file_text = EmptyText | NotJSON | TooDeep | JSON json

datatype file_content = Unreadable exn | Text file_text

record 'x world =
  state_file :: "file_content option"
  machine :: 'x

section \<open>Messages and the kernel client\<close>

text \<open>
  A message as \<^verbatim>\<open>execute_code\<close> reads it: \<^verbatim>\<open>msg["header"]["msg_type"]\<close>,
  \<^verbatim>\<open>msg["content"]\<close> and \<^verbatim>\<open>msg.get("parent_header", {}).get("msg_id")\<close>. The
  deserialiser of \<^verbatim>\<open>jupyter_client\<close> always supplies the header with its type and the
  content; what the content holds is up to the kernel.
\<close>

record msg =
  msg_type :: string
  content :: "string \<rightharpoonup> json"
  parent_msg_id :: "string option"

text \<open>One call of \<^verbatim>\<open>client.get_iopub_msg(timeout=t)\<close> returns a message or raises.\<close>

datatype recv = Received msg | Failed exn

text \<open>
  The client is external. \<^verbatim>\<open>execute\<close> is the outcome of \<^verbatim>\<open>client.execute(code)\<close>: the
  \<^verbatim>\<open>msg_id\<close> of the request, or an exception. \<^verbatim>\<open>get_iopub_msg c code t\<close> is the
  sequence of outcomes of the successive calls \<^verbatim>\<open>client.get_iopub_msg(timeout=t)\<close>
  made after \<^verbatim>\<open>code\<close> was submitted; it is infinite because the loop may call without
  bound.
\<close>

record client =
  execute :: "string \<Rightarrow> exn + string"
  get_iopub_msg :: "string \<Rightarrow> int \<Rightarrow> recv stream"

section \<open>The operating system and the Jupyter libraries\<close>

text \<open>
  Everything \<^verbatim>\<open>kernel.py\<close> calls outside itself, taken as parameters:
  \<^item> \<^verbatim>\<open>kill_check\<close>: the error checking of \<^verbatim>\<open>os.kill(pid, sig)\<close>, \<^verbatim>\<open>None\<close> when the
    signal can be sent;
  \<^item> \<^verbatim>\<open>send_signal\<close>: what delivering a signal other than 0 does to the machine;
  \<^item> \<^verbatim>\<open>path_exists\<close> and \<^verbatim>\<open>path_unlink\<close>: \<^verbatim>\<open>Path(p).exists()\<close> and
    \<^verbatim>\<open>Path(p).unlink(missing_ok=True)\<close> on a path other than the state file;
    \<^verbatim>\<open>exists\<close> answers, or raises the \<^verbatim>\<open>OSError\<close> of \<^verbatim>\<open>stat\<close> that it does not pass
    over (a name too long, a directory it may not search);
  \<^item> \<^verbatim>\<open>km_start_kernel\<close>: \<^verbatim>\<open>KernelManager(kernel_name=k).start_kernel()\<close>, giving
    \<^verbatim>\<open>km.connection_file\<close> and \<^verbatim>\<open>km.kernel.pid\<close>, or raising;
  \<^item> \<^verbatim>\<open>km_shutdown_kernel\<close>: \<^verbatim>\<open>KernelManager()\<close>, \<^verbatim>\<open>load_connection_file\<close> and
    \<^verbatim>\<open>shutdown_kernel(now=True)\<close>;
  \<^item> \<^verbatim>\<open>connect\<close>: \<^verbatim>\<open>BlockingKernelClient()\<close>, \<^verbatim>\<open>load_connection_file\<close>,
    \<^verbatim>\<open>start_channels\<close> and \<^verbatim>\<open>wait_for_ready(timeout=t)\<close>.
  Testing for the state file, writing it and deleting it are taken to succeed, and
  \<^verbatim>\<open>get_state_dir\<close>, which creates the directory of the state file when it is missing,
  is left out.
\<close>

record 'x env =
  kill_check :: "json \<Rightarrow> 'x world \<Rightarrow> exn option"
  send_signal :: "json \<Rightarrow> nat \<Rightarrow> 'x world \<Rightarrow> 'x world"
  path_exists :: "string \<Rightarrow> 'x world \<Rightarrow> exn + bool"
  path_unlink :: "string \<Rightarrow> 'x world \<Rightarrow> exn option \<times> 'x world"
  km_start_kernel :: "string \<Rightarrow> 'x world \<Rightarrow> (exn + string \<times> int) \<times> 'x world"
  km_shutdown_kernel :: "json \<Rightarrow> 'x world \<Rightarrow> exn option \<times> 'x world"
  connect :: "json \<Rightarrow> int \<Rightarrow> 'x world \<Rightarrow> (exn + client) \<times> 'x world"

text \<open>
  \<^verbatim>\<open>os.kill(pid, sig)\<close>: with signal 0 nothing is sent, only the check is made.
\<close>

definition SIGTERM :: nat where
  "SIGTERM = 15"

definition os_kill :: "'x env \<Rightarrow> json \<Rightarrow> nat \<Rightarrow> 'x world \<Rightarrow> exn option \<times> 'x world" where
  "os_kill env p sig w =
     (case kill_check env p w of
        Some e \<Rightarrow> (Some e, w)
      | None \<Rightarrow> (None, if sig = 0 then w else send_signal env p sig w))"

text \<open>\<^verbatim>\<open>Path(x)\<close> raises \<^verbatim>\<open>TypeError\<close> unless \<^verbatim>\<open>x\<close> is a string.\<close>

fun Path :: "json \<Rightarrow> exn + string" where
  "Path (JStr s) = Inr s"
| "Path _ = Inl TypeError"

section \<open>load, save, clear\<close>

text \<open>\<^verbatim>\<open>state_file.read_text()\<close>\<close>

fun read_text :: "file_content \<Rightarrow> exn + file_text" where
  "read_text (Unreadable e) = Inl e"
| "read_text (Text txt) = Inr txt"

text \<open>\<^verbatim>\<open>json.loads(text)\<close>\<close>

fun json_loads :: "file_text \<Rightarrow> exn + json" where
  "json_loads EmptyText = Inl JSONDecodeError"
| "json_loads NotJSON = Inl JSONDecodeError"
| "json_loads TooDeep = Inl RecursionError"
| "json_loads (JSON v) = Inr v"

text \<open>
  \<^verbatim>\<open>KernelState(**data)\<close>: \<^verbatim>\<open>data\<close> must be a dictionary whose keys are exactly the
  three fields; anything else is a \<^verbatim>\<open>TypeError\<close>. The values are not checked.
\<close>

fun KernelState_kwargs :: "json \<Rightarrow> exn + KernelState" where
  "KernelState_kwargs (JDict kvs) =
     (case (map_of kvs ''connection_file'', map_of kvs ''kernel_name'', map_of kvs ''pid'') of
        (Some c, Some k, Some p) \<Rightarrow>
          if list_all (\<lambda>kv. fst kv = ''connection_file'' \<or> fst kv = ''kernel_name''
                \<or> fst kv = ''pid'') kvs
          then Inr \<lparr>connection_file = c, kernel_name = k, pid = p\<rparr>
          else Inl TypeError
      | _ \<Rightarrow> Inl TypeError)"
| "KernelState_kwargs _ = Inl TypeError"

text \<open>\<^verbatim>\<open>asdict(state)\<close>\<close>

definition asdict :: "KernelState \<Rightarrow> json" where
  "asdict state = JDict [(''connection_file'', connection_file state),
     (''kernel_name'', kernel_name state), (''pid'', pid state)]"

text \<open>\<^verbatim>\<open>get_state_file().unlink(missing_ok=True)\<close>\<close>

definition clear_state :: "'x world \<Rightarrow> 'x world" where
  "clear_state w = w\<lparr>state_file := None\<rparr>"

text \<open>
  \<^verbatim>\<open>state_file.write_text(text)\<close> opens the file with mode \<^verbatim>\<open>w\<close>, which creates it or
  truncates it to the empty text, then writes the text and closes the file. These
  are the states of the world it passes through; there is no temporary file and no
  rename.
\<close>

definition write_text_steps :: "file_text \<Rightarrow> 'x world \<Rightarrow> 'x world list" where
  "write_text_steps txt w =
     [w\<lparr>state_file := Some (Text EmptyText)\<rparr>, w\<lparr>state_file := Some (Text txt)\<rparr>]"

text \<open>
  \<^verbatim>\<open>state_file.write_text(json.dumps(asdict(state)))\<close>: the states \<^verbatim>\<open>save_state\<close>
  passes through, and the one it ends in.
\<close>

definition save_state_steps :: "KernelState \<Rightarrow> 'x world \<Rightarrow> 'x world list" where
  "save_state_steps state w = write_text_steps (JSON (asdict state)) w"

definition save_state :: "KernelState \<Rightarrow> 'x world \<Rightarrow> 'x world" where
  "save_state state w = last (save_state_steps state w)"

text \<open>
  \<^verbatim>\<open>load_state\<close>. The inner case expression is the body of the outer \<^verbatim>\<open>try\<close>; an
  exception it raises is caught by \<^verbatim>\<open>except (JSONDecodeError, KeyError, TypeError)\<close>
  or leaves the function, and then the state file stays as it is.
\<close>

definition load_state :: "'x env \<Rightarrow> 'x world \<Rightarrow> (exn + KernelState option) \<times> 'x world" where
  "load_state env w =
     (case state_file w of
        None \<Rightarrow> (Inr None, w)
      | Some f \<Rightarrow>
          (case
             (case read_text f of
                Inl e \<Rightarrow> Inl e
              | Inr txt \<Rightarrow>
             (case json_loads txt of
                Inl e \<Rightarrow> Inl e
              | Inr data \<Rightarrow>
             (case KernelState_kwargs data of
                Inl e \<Rightarrow> Inl e
              | Inr state \<Rightarrow>
             (case os_kill env (pid state) 0 w of
                (Some e, w1) \<Rightarrow>
                  if is_OSError e then Inr (None, clear_state w1) else Inl e
              | (None, w1) \<Rightarrow>
             (case Path (connection_file state) of
                Inl e \<Rightarrow> Inl e
              | Inr p \<Rightarrow>
             (case path_exists env p w1 of
                Inl e \<Rightarrow> Inl e
              | Inr found \<Rightarrow>
                  if \<not> found then Inr (None, clear_state w1)
                  else Inr (Some state, w1)))))))
           of
             Inl e \<Rightarrow> if is_decode_error e then (Inr None, clear_state w) else (Inl e, w)
           | Inr (r, w') \<Rightarrow> (Inr r, w')))"

definition is_kernel_running :: "'x env \<Rightarrow> 'x world \<Rightarrow> (exn + bool) \<times> 'x world" where
  "is_kernel_running env w =
     (case load_state env w of
        (Inl e, w') \<Rightarrow> (Inl e, w')
      | (Inr r, w') \<Rightarrow> (Inr (r \<noteq> None), w'))"

section \<open>start, stop, restart\<close>

definition already_running :: exn where
  "already_running = RuntimeError
     (''A kernel is already running. Use '' @ [CHR 0x27] @ ''qkernel stop'' @ [CHR 0x27]
      @ '' first or '' @ [CHR 0x27] @ ''qkernel restart'' @ [CHR 0x27] @ ''.'')"

definition start_kernel :: "'x env \<Rightarrow> string \<Rightarrow> 'x world \<Rightarrow> (exn + KernelState) \<times> 'x world" where
  "start_kernel env name w =
     (case load_state env w of
        (Inl e, w1) \<Rightarrow> (Inl e, w1)
      | (Inr (Some existing), w1) \<Rightarrow> (Inl already_running, w1)
      | (Inr None, w1) \<Rightarrow>
          (case km_start_kernel env name w1 of
             (Inl e, w2) \<Rightarrow> (Inl e, w2)
           | (Inr (cf, p), w2) \<Rightarrow>
               (let state = \<lparr>connection_file = JStr cf, kernel_name = JStr name,
                              pid = JInt p\<rparr>
                in (Inr state, save_state state w2))))"

text \<open>
  The first \<^verbatim>\<open>try\<close> of \<^verbatim>\<open>stop_kernel\<close>: graceful shutdown, and on any exception the
  termination signal, whose \<^verbatim>\<open>OSError\<close> is passed over. The result is the exception
  that leaves the block, if any.
\<close>

definition shutdown_or_kill :: "'x env \<Rightarrow> KernelState \<Rightarrow> 'x world \<Rightarrow> exn option \<times> 'x world" where
  "shutdown_or_kill env state w =
     (case km_shutdown_kernel env (connection_file state) w of
        (None, w1) \<Rightarrow> (None, w1)
      | (Some e, w1) \<Rightarrow>
          (case os_kill env (pid state) SIGTERM w1 of
             (None, w2) \<Rightarrow> (None, w2)
           | (Some e', w2) \<Rightarrow> if is_OSError e' then (None, w2) else (Some e', w2)))"

text \<open>
  The second \<^verbatim>\<open>try\<close>: \<^verbatim>\<open>Path(state.connection_file).unlink(missing_ok=True)\<close> under
  \<^verbatim>\<open>except Exception: pass\<close>.
\<close>

definition remove_connection_file :: "'x env \<Rightarrow> KernelState \<Rightarrow> 'x world \<Rightarrow> 'x world" where
  "remove_connection_file env state w =
     (case Path (connection_file state) of
        Inl e \<Rightarrow> w
      | Inr p \<Rightarrow> snd (path_unlink env p w))"

definition stop_kernel :: "'x env \<Rightarrow> 'x world \<Rightarrow> (exn + bool) \<times> 'x world" where
  "stop_kernel env w =
     (case load_state env w of
        (Inl e, w1) \<Rightarrow> (Inl e, w1)
      | (Inr None, w1) \<Rightarrow> (Inr False, w1)
      | (Inr (Some state), w1) \<Rightarrow>
          (case shutdown_or_kill env state w1 of
             (Some e, w2) \<Rightarrow> (Inl e, w2)
           | (None, w2) \<Rightarrow>
               (Inr True, clear_state (remove_connection_file env state w2))))"

definition restart_kernel :: "'x env \<Rightarrow> string \<Rightarrow> 'x world \<Rightarrow> (exn + KernelState) \<times> 'x world" where
  "restart_kernel env name w =
     (case stop_kernel env w of
        (Inl e, w1) \<Rightarrow> (Inl e, w1)
      | (Inr _, w1) \<Rightarrow> start_kernel env name w1)"

section \<open>The client of the running kernel\<close>

definition no_kernel :: exn where
  "no_kernel = RuntimeError
     (''No kernel is running. Use '' @ [CHR 0x27] @ ''qkernel start'' @ [CHR 0x27]
      @ '' first.'')"

definition get_client ::
  "'x env \<Rightarrow> KernelState option \<Rightarrow> int option \<Rightarrow> 'x world \<Rightarrow> (exn + client) \<times> 'x world" where
  "get_client env state timeout w =
     (case (case state of None \<Rightarrow> load_state env w | Some s \<Rightarrow> (Inr (Some s), w)) of
        (Inl e, w1) \<Rightarrow> (Inl e, w1)
      | (Inr None, w1) \<Rightarrow> (Inl no_kernel, w1)
      | (Inr (Some s), w1) \<Rightarrow> connect env (connection_file s) (timeout_or timeout 30) w1)"

section \<open>The execution engine\<close>

text \<open>
  The local variables of \<^verbatim>\<open>execute_code\<close> that the loop updates: \<^verbatim>\<open>stdout_parts\<close>,
  \<^verbatim>\<open>stderr_parts\<close>, \<^verbatim>\<open>result\<close>, \<^verbatim>\<open>display_data\<close> and \<^verbatim>\<open>error\<close> (\<^verbatim>\<open>None\<close> is
  \<open>JNull\<close>), and the \<^verbatim>\<open>CellOutput\<close> built from them.
\<close>

record collected =
  stdout_parts :: "json list"
  stderr_parts :: "json list"
  cur_result :: json
  cur_display_data :: "json list"
  cur_error :: json

record CellOutput =
  stdout :: string
  stderr :: string
  result :: json
  display_data :: "json list"
  error :: json

definition initial :: collected where
  "initial = \<lparr>stdout_parts = [], stderr_parts = [], cur_result = JNull,
     cur_display_data = [], cur_error = JNull\<rparr>"

text \<open>
  What one pass through the loop body does with a received message: go on with the
  updated variables (\<^verbatim>\<open>continue\<close>, or the end of the body), \<^verbatim>\<open>break\<close>, or raise.
\<close>

datatype flow = Continue collected | Break | Raise exn

definition loop_body :: "string \<Rightarrow> msg \<Rightarrow> collected \<Rightarrow> flow" where
  "loop_body msg_id m a =
     (if parent_msg_id m \<noteq> Some msg_id then Continue a
      else if msg_type m = ''stream'' then
        (case getitem (content m) ''name'' of
           Inl e \<Rightarrow> Raise e
         | Inr name \<Rightarrow>
             if name = JStr ''stdout'' then
               (case getitem (content m) ''text'' of
                  Inl e \<Rightarrow> Raise e
                | Inr t \<Rightarrow> Continue (a\<lparr>stdout_parts := stdout_parts a @ [t]\<rparr>))
             else if name = JStr ''stderr'' then
               (case getitem (content m) ''text'' of
                  Inl e \<Rightarrow> Raise e
                | Inr t \<Rightarrow> Continue (a\<lparr>stderr_parts := stderr_parts a @ [t]\<rparr>))
             else Continue a)
      else if msg_type m = ''execute_result'' then
        (case getitem (content m) ''data'' of
           Inl e \<Rightarrow> Raise e
         | Inr d \<Rightarrow> Continue (a\<lparr>cur_result := d\<rparr>))
      else if msg_type m = ''display_data'' then
        (case getitem (content m) ''data'' of
           Inl e \<Rightarrow> Raise e
         | Inr d \<Rightarrow> Continue (a\<lparr>cur_display_data := cur_display_data a @ [d]\<rparr>))
      else if msg_type m = ''error'' then
        (case getitem (content m) ''ename'' of
           Inl e \<Rightarrow> Raise e
         | Inr en \<Rightarrow>
        (case getitem (content m) ''evalue'' of
           Inl e \<Rightarrow> Raise e
         | Inr ev \<Rightarrow>
        (case getitem (content m) ''traceback'' of
           Inl e \<Rightarrow> Raise e
         | Inr tb \<Rightarrow>
             Continue (a\<lparr>cur_error :=
               JDict [(''ename'', en), (''evalue'', ev), (''traceback'', tb)]\<rparr>))))
      else if msg_type m = ''status'' then
        (case getitem (content m) ''execution_state'' of
           Inl e \<Rightarrow> Raise e
         | Inr st \<Rightarrow> if st = JStr ''idle'' then Break else Continue a)
      else Continue a)"

text \<open>
  The \<^verbatim>\<open>while True\<close> loop. It may run forever, so not returning is \<open>None\<close>. Any
  exception of the receive is caught by \<^verbatim>\<open>except Exception: break\<close>.
\<close>

partial_function (option) receive_loop ::
  "string \<Rightarrow> recv stream \<Rightarrow> collected \<Rightarrow> (exn + collected) option" where
  "receive_loop msg_id ch a =
     (case shd ch of
        Failed e \<Rightarrow> Some (Inr a)
      | Received m \<Rightarrow>
          (case loop_body msg_id m a of
             Continue a' \<Rightarrow> receive_loop msg_id (stl ch) a'
           | Break \<Rightarrow> Some (Inr a)
           | Raise e \<Rightarrow> Some (Inl e)))"

text \<open>\<^verbatim>\<open>"".join(parts)\<close> raises \<^verbatim>\<open>TypeError\<close> on an item that is not a string.\<close>

fun str_join :: "json list \<Rightarrow> exn + string" where
  "str_join [] = Inr []"
| "str_join (JStr s # ps) = (case str_join ps of Inl e \<Rightarrow> Inl e | Inr r \<Rightarrow> Inr (s @ r))"
| "str_join (_ # ps) = Inl TypeError"

definition make_CellOutput :: "collected \<Rightarrow> exn + CellOutput" where
  "make_CellOutput a =
     (case str_join (stdout_parts a) of
        Inl e \<Rightarrow> Inl e
      | Inr out \<Rightarrow>
     (case str_join (stderr_parts a) of
        Inl e \<Rightarrow> Inl e
      | Inr err \<Rightarrow>
          Inr \<lparr>stdout = out, stderr = err, result = cur_result a,
               display_data = cur_display_data a, error = cur_error a\<rparr>))"

text \<open>
  The body of the \<^verbatim>\<open>try\<close> of \<^verbatim>\<open>execute_code\<close>, for the client in use: submit the code,
  run the loop with the timeout \<^verbatim>\<open>timeout or 600\<close>, build the \<^verbatim>\<open>CellOutput\<close>.
\<close>

definition execute_on :: "client \<Rightarrow> string \<Rightarrow> int option \<Rightarrow> (exn + CellOutput) option" where
  "execute_on c code timeout =
     (case execute c code of
        Inl e \<Rightarrow> Some (Inl e)
      | Inr msg_id \<Rightarrow>
          (case receive_loop msg_id (get_iopub_msg c code (timeout_or timeout 600)) initial of
             None \<Rightarrow> None
           | Some (Inl e) \<Rightarrow> Some (Inl e)
           | Some (Inr a) \<Rightarrow> Some (make_CellOutput a)))"

text \<open>
  \<^verbatim>\<open>execute_code\<close>: without a client it gets its own from \<^verbatim>\<open>get_client\<close>, and stops
  that client's channels in the \<^verbatim>\<open>finally\<close>, which changes neither the result nor
  the world of this model.
\<close>

definition execute_code ::
  "'x env \<Rightarrow> string \<Rightarrow> client option \<Rightarrow> int option \<Rightarrow> 'x world
     \<Rightarrow> ((exn + CellOutput) \<times> 'x world) option" where
  "execute_code env code cl timeout w =
     (case (case cl of None \<Rightarrow> get_client env None timeout w | Some c \<Rightarrow> (Inr c, w)) of
        (Inl e, w1) \<Rightarrow> Some (Inl e, w1)
      | (Inr c, w1) \<Rightarrow> map_option (\<lambda>r. (r, w1)) (execute_on c code timeout))"

section \<open>Notions used in the statements\<close>

text \<open>
  A receive outcome is relevant to the request \<open>tok\<close> unless it is a message whose
  \<^verbatim>\<open>parent_header\<close> names another request (or none). The idle status of the request is
  the message that ends its loop; a failed receive ends it too.
\<close>

definition relevant :: "string \<Rightarrow> recv \<Rightarrow> bool" where
  "relevant tok r = (case r of Received m \<Rightarrow> parent_msg_id m = Some tok | Failed e \<Rightarrow> True)"

definition is_idle :: "string \<Rightarrow> msg \<Rightarrow> bool" where
  "is_idle tok m = (parent_msg_id m = Some tok \<and> msg_type m = ''status'' \<and>
     content m ''execution_state'' = Some (JStr ''idle''))"

definition ends_loop :: "string \<Rightarrow> recv \<Rightarrow> bool" where
  "ends_loop tok r = (case r of Failed e \<Rightarrow> True | Received m \<Rightarrow> is_idle tok m)"

text \<open>
  The messages of a request, by kind, in arrival order: its notifications of one
  \<^verbatim>\<open>msg_type\<close>, its stream fragments of one name, their texts, the \<^verbatim>\<open>data\<close> payloads
  and the error dictionaries. \<open>summary tok ms\<close> is the \<^verbatim>\<open>CellOutput\<close> that the messages
  \<open>ms\<close> add up to.
\<close>

definition notifications :: "string \<Rightarrow> string \<Rightarrow> msg list \<Rightarrow> msg list" where
  "notifications tok kind ms =
     filter (\<lambda>m. parent_msg_id m = Some tok \<and> msg_type m = kind) ms"

definition fragments :: "string \<Rightarrow> string \<Rightarrow> msg list \<Rightarrow> msg list" where
  "fragments tok tag ms =
     filter (\<lambda>m. content m ''name'' = Some (JStr tag)) (notifications tok ''stream'' ms)"

definition text_of :: "msg \<Rightarrow> string" where
  "text_of m = (case content m ''text'' of Some (JStr s) \<Rightarrow> s | _ \<Rightarrow> [])"

definition raw_texts :: "string \<Rightarrow> string \<Rightarrow> msg list \<Rightarrow> json list" where
  "raw_texts tok tag ms = List.map_filter (\<lambda>m. content m ''text'') (fragments tok tag ms)"

definition payloads :: "string \<Rightarrow> string \<Rightarrow> msg list \<Rightarrow> json list" where
  "payloads tok kind ms =
     List.map_filter (\<lambda>m. content m ''data'') (notifications tok kind ms)"

definition failure_of :: "msg \<Rightarrow> json option" where
  "failure_of m =
     (case (content m ''ename'', content m ''evalue'', content m ''traceback'') of
        (Some en, Some ev, Some tb) \<Rightarrow>
          Some (JDict [(''ename'', en), (''evalue'', ev), (''traceback'', tb)])
      | _ \<Rightarrow> None)"

definition failures :: "string \<Rightarrow> msg list \<Rightarrow> json list" where
  "failures tok ms = List.map_filter failure_of (notifications tok ''error'' ms)"

definition summary :: "string \<Rightarrow> msg list \<Rightarrow> CellOutput" where
  "summary tok ms =
     \<lparr>stdout = concat (map text_of (fragments tok ''stdout'' ms)),
      stderr = concat (map text_of (fragments tok ''stderr'' ms)),
      result = last (JNull # payloads tok ''execute_result'' ms),
      display_data = payloads tok ''display_data'' ms,
      error = last (JNull # failures tok ms)\<rparr>"

text \<open>
  A message conforms to the Jupyter messaging protocol, as far as the loop reads it,
  when its content has the keys of its kind and the text of an output stream fragment
  is a string. The loop raises \<^verbatim>\<open>KeyError\<close> on a missing key, and \<^verbatim>\<open>"".join\<close> raises
  \<^verbatim>\<open>TypeError\<close> on a text that is not a string.
\<close>

definition conforms :: "msg \<Rightarrow> bool" where
  "conforms m =
     (if msg_type m = ''stream'' then
        (case content m ''name'' of
           None \<Rightarrow> False
         | Some name \<Rightarrow>
             if name = JStr ''stdout'' \<or> name = JStr ''stderr''
             then (case content m ''text'' of Some (JStr s) \<Rightarrow> True | _ \<Rightarrow> False)
             else True)
      else if msg_type m = ''execute_result'' \<or> msg_type m = ''display_data'' then
        content m ''data'' \<noteq> None
      else if msg_type m = ''error'' then
        content m ''ename'' \<noteq> None \<and> content m ''evalue'' \<noteq> None \<and>
        content m ''traceback'' \<noteq> None
      else if msg_type m = ''status'' then content m ''execution_state'' \<noteq> None
      else True)"

text \<open>
  The loop on a finite run of received messages: still running with the variables as
  they are now, returned at an idle status, or raised. \<open>absorbed tok ms a\<close> is the state
  of the variables after \<open>ms\<close>, starting from \<open>a\<close>.
\<close>

datatype progress = Running collected | Returned collected | Raised exn

fun consume :: "string \<Rightarrow> msg list \<Rightarrow> collected \<Rightarrow> progress" where
  "consume tok [] a = Running a"
| "consume tok (m # ms) a =
     (case loop_body tok m a of
        Continue a' \<Rightarrow> consume tok ms a'
      | Break \<Rightarrow> Returned a
      | Raise e \<Rightarrow> Raised e)"

definition absorbed :: "string \<Rightarrow> msg list \<Rightarrow> collected \<Rightarrow> collected" where
  "absorbed tok ms a =
     \<lparr>stdout_parts = stdout_parts a @ raw_texts tok ''stdout'' ms,
      stderr_parts = stderr_parts a @ raw_texts tok ''stderr'' ms,
      cur_result = last (cur_result a # payloads tok ''execute_result'' ms),
      cur_display_data = cur_display_data a @ payloads tok ''display_data'' ms,
      cur_error = last (cur_error a # failures tok ms)\<rparr>"

text \<open>
  \<open>n\<close> calls of \<^verbatim>\<open>start_kernel\<close> in a row, with their results.
\<close>

fun start_again ::
  "nat \<Rightarrow> 'x env \<Rightarrow> string \<Rightarrow> 'x world \<Rightarrow> (exn + KernelState) list \<times> 'x world" where
  "start_again 0 env name w = ([], w)"
| "start_again (Suc n) env name w =
     (case start_kernel env name w of
        (r, w1) \<Rightarrow> (case start_again n env name w1 of (rs, w2) \<Rightarrow> (r # rs, w2)))"

section \<open>Test doubles\<close>

text \<open>
  A scripted client answers every \<^verbatim>\<open>execute\<close> with the same \<^verbatim>\<open>msg_id\<close> and replays a
  list of receive outcomes, after which every receive times out; the slow kernel prints
  after ten seconds. The test machine is a set of live process ids and a set of
  existing paths; its \<^verbatim>\<open>os.kill\<close> checks the type and the range of the process id as
  CPython does.
\<close>

definition message :: "string \<Rightarrow> string \<Rightarrow> (string \<times> json) list \<Rightarrow> msg" where
  "message tok kind kvs = \<lparr>msg_type = kind, content = map_of kvs, parent_msg_id = Some tok\<rparr>"

definition scripted :: "string \<Rightarrow> recv list \<Rightarrow> client" where
  "scripted tok rs =
     \<lparr>execute = (\<lambda>code. Inr tok), get_iopub_msg = (\<lambda>code t. rs @- sconst (Failed Empty))\<rparr>"

definition test_env :: "(int set \<times> string set) env" where
  "test_env =
     \<lparr>kill_check = (\<lambda>p w.
        case (case p of JInt n \<Rightarrow> Some n | JBool b \<Rightarrow> Some (if b then 1 else 0)
              | _ \<Rightarrow> None) of
          None \<Rightarrow> Some TypeError
        | Some n \<Rightarrow>
            if n < - 2147483648 \<or> 2147483648 \<le> n then Some OverflowError
            else if n = 0 \<or> n \<in> fst (machine w) then None
            else Some ProcessLookupError),
      send_signal = (\<lambda>p sig w. case p of
          JInt n \<Rightarrow> w\<lparr>machine := (fst (machine w) - {n}, snd (machine w))\<rparr>
        | _ \<Rightarrow> w),
      path_exists = (\<lambda>p w.
        if 4095 < length p then Inl OSError else Inr (p \<in> snd (machine w))),
      path_unlink = (\<lambda>p w. (None, w\<lparr>machine := (fst (machine w), snd (machine w) - {p})\<rparr>)),
      km_start_kernel = (\<lambda>k w. (Inr (''/run/kernel-7.json'', 4242),
          w\<lparr>machine := (insert 4242 (fst (machine w)),
                         insert ''/run/kernel-7.json'' (snd (machine w)))\<rparr>)),
      km_shutdown_kernel = (\<lambda>cf w. (None, w\<lparr>machine := ({}, snd (machine w))\<rparr>)),
      connect = (\<lambda>cf t w. (Inr (scripted ''req-1'' []), w))\<rparr>"

definition empty_world :: "(int set \<times> string set) world" where
  "empty_world = \<lparr>state_file = None, machine = ({}, {})\<rparr>"

definition record_7 :: KernelState where
  "record_7 = \<lparr>connection_file = JStr ''/run/kernel-7.json'', kernel_name = JStr ''python3'',
     pid = JInt 4242\<rparr>"

definition record_8 :: KernelState where
  "record_8 = \<lparr>connection_file = JStr ''/run/kernel-8.json'', kernel_name = JStr ''python3'',
     pid = JInt 4343\<rparr>"

definition running_world :: "(int set \<times> string set) world" where
  "running_world = \<lparr>state_file = Some (Text (JSON (asdict record_7))),
     machine = ({4242}, {''/run/kernel-7.json''})\<rparr>"

definition crashed_world :: "(int set \<times> string set) world" where
  "crashed_world = \<lparr>state_file = Some (Text (JSON (asdict record_7))),
     machine = ({}, {''/run/kernel-7.json''})\<rparr>"

definition cleared_world :: "(int set \<times> string set) world" where
  "cleared_world = \<lparr>state_file = None, machine = ({}, {''/run/kernel-7.json''})\<rparr>"

definition binary_world :: "(int set \<times> string set) world" where
  "binary_world = \<lparr>state_file = Some (Unreadable UnicodeDecodeError),
     machine = ({4242}, {''/run/kernel-7.json''})\<rparr>"

definition overflow_world :: "(int set \<times> string set) world" where
  "overflow_world = \<lparr>state_file = Some (Text (JSON (asdict
       \<lparr>connection_file = JStr ''/run/kernel-7.json'', kernel_name = JStr ''python3'',
          pid = JInt 1099511627776\<rparr>))),
     machine = ({4242}, {''/run/kernel-7.json''})\<rparr>"

definition half_written_world :: "(int set \<times> string set) world" where
  "half_written_world = \<lparr>state_file = Some (Text EmptyText),
     machine = ({4242}, {''/run/kernel-7.json''})\<rparr>"

definition stale_idle :: msg where
  "stale_idle = message ''req-1'' ''status'' [(''execution_state'', JStr ''idle'')]"

definition busy :: msg where
  "busy = message ''req-2'' ''status'' [(''execution_state'', JStr ''busy'')]"

definition idle :: msg where
  "idle = message ''req-2'' ''status'' [(''execution_state'', JStr ''idle'')]"

definition out42 :: msg where
  "out42 = message ''req-2'' ''stream'' [(''name'', JStr ''stdout''), (''text'', JStr ''42'')]"

definition out43 :: msg where
  "out43 = message ''req-2'' ''stream'' [(''name'', JStr ''stdout''), (''text'', JStr ''43'')]"

definition warn :: msg where
  "warn = message ''req-2'' ''stream'' [(''name'', JStr ''stderr''), (''text'', JStr ''w'')]"

definition value42 :: msg where
  "value42 = message ''req-2'' ''execute_result''
     [(''data'', JDict [(''text/plain'', JStr ''42'')])]"

definition picture :: msg where
  "picture = message ''req-2'' ''display_data''
     [(''data'', JDict [(''image/png'', JStr ''iVBOR'')])]"

definition name_error :: msg where
  "name_error = message ''req-2'' ''error''
     [(''ename'', JStr ''NameError''), (''evalue'', JStr ''x''), (''traceback'', JList [])]"


section \<open>The receive loop, one message at a time\<close>

lemma getitem_Inr [simp]: "getitem d k = Inr v \<longleftrightarrow> d k = Some v"
  by (simp add: getitem_def split: option.splits)

lemma getitem_Inl [simp]: "getitem d k = Inl e \<longleftrightarrow> d k = None \<and> e = KeyError k"
  by (auto simp add: getitem_def split: option.splits)

lemma loop_Failed: "receive_loop tok (Failed e ## ch) a = Some (Inr a)"
  by (subst receive_loop.simps) simp

lemma loop_Received:
  "receive_loop tok (Received m ## ch) a =
     (case loop_body tok m a of
        Continue a' \<Rightarrow> receive_loop tok ch a'
      | Break \<Rightarrow> Some (Inr a)
      | Raise e \<Rightarrow> Some (Inl e))"
  by (subst receive_loop.simps) (simp split: flow.splits)

lemma body_other_request: "parent_msg_id m \<noteq> Some tok \<Longrightarrow> loop_body tok m a = Continue a"
  by (simp add: loop_body_def)

lemma loop_skip: "parent_msg_id m \<noteq> Some tok \<Longrightarrow>
  receive_loop tok (Received m ## ch) a = receive_loop tok ch a"
  by (simp add: loop_Received body_other_request)

lemma loop_filter:
  "receive_loop tok (xs @- ch) a = receive_loop tok (filter (relevant tok) xs @- ch) a"
proof (induction xs arbitrary: a)
  case Nil
  show ?case by simp
next
  case (Cons x xs)
  show ?case
  proof (cases x)
    case (Failed e)
    then show ?thesis by (simp add: relevant_def loop_Failed)
  next
    case (Received m)
    show ?thesis
    proof (cases "parent_msg_id m = Some tok")
      case True
      then have "filter (relevant tok) (x # xs) = x # filter (relevant tok) xs"
        using Received by (simp add: relevant_def)
      then show ?thesis
        using Received Cons.IH by (simp add: loop_Received split: flow.splits)
    next
      case False
      then have "filter (relevant tok) (x # xs) = filter (relevant tok) xs"
        using Received by (simp add: relevant_def)
      then show ?thesis
        using Received False Cons.IH by (simp add: loop_skip)
    qed
  qed
qed

lemma execute_code_Some:
  "execute_code env code (Some c) timeout w = map_option (\<lambda>r. (r, w)) (execute_on c code timeout)"
  by (simp add: execute_code_def)

lemma loop_prefix:
  "receive_loop tok (map Received ms @- ch) a =
     (case consume tok ms a of
        Running a' \<Rightarrow> receive_loop tok ch a'
      | Returned a' \<Rightarrow> Some (Inr a')
      | Raised e \<Rightarrow> Some (Inl e))"
  by (induction ms arbitrary: a) (simp_all add: loop_Received split: flow.splits)

lemma body_Break_iff: "loop_body tok m a = Break \<longleftrightarrow> is_idle tok m"
  unfolding loop_body_def is_idle_def
  by (simp split: sum.splits)

lemma loop_ends: "ends_loop tok t \<Longrightarrow> receive_loop tok (t ## rest) a = Some (Inr a)"
  by (cases t) (simp_all add: ends_loop_def loop_Failed loop_Received body_Break_iff [THEN iffD2])

lemma ends_loop_relevant: "ends_loop tok r \<Longrightarrow> relevant tok r"
  by (cases r) (simp_all add: ends_loop_def relevant_def is_idle_def)

lemma loop_tail_indep:
  "\<exists>r\<in>set xs. ends_loop tok r \<Longrightarrow>
     receive_loop tok (xs @- ch) a = receive_loop tok (xs @- ch') a"
proof (induction xs arbitrary: a)
  case Nil
  then show ?case by simp
next
  case (Cons x xs)
  show ?case
  proof (cases "ends_loop tok x")
    case True
    then show ?thesis by (simp add: loop_ends)
  next
    case False
    with Cons.prems have "\<exists>r\<in>set xs. ends_loop tok r" by simp
    from Cons.IH [OF this] show ?thesis
      by (cases x) (simp_all add: loop_Failed loop_Received split: flow.splits)
  qed
qed

lemma loop_fail_indep:
  "receive_loop tok (xs @- (Failed e1 ## r1)) a = receive_loop tok (xs @- (Failed e2 ## r2)) a"
proof (induction xs arbitrary: a)
  case Nil
  show ?case by (simp add: loop_Failed)
next
  case (Cons x xs)
  show ?case
    by (cases x) (simp_all add: loop_Failed loop_Received Cons.IH split: flow.splits)
qed

section \<open>What a run of messages leaves in the variables\<close>

lemma notifications_Cons:
  "notifications tok kind (m # ms) =
     (if parent_msg_id m = Some tok \<and> msg_type m = kind then [m] else [])
     @ notifications tok kind ms"
  by (simp add: notifications_def)

lemma notifications_Nil [simp]: "notifications tok kind [] = []"
  by (simp add: notifications_def)

lemma raw_texts_Nil [simp]: "raw_texts tok tag [] = []"
  by (simp add: raw_texts_def fragments_def)

lemma payloads_Nil [simp]: "payloads tok kind [] = []"
  by (simp add: payloads_def)

lemma failures_Nil [simp]: "failures tok [] = []"
  by (simp add: failures_def)

lemma absorbed_Nil [simp]: "absorbed tok [] a = a"
  by (simp add: absorbed_def)

lemma map_filter_append: "List.map_filter f (xs @ ys) = List.map_filter f xs @ List.map_filter f ys"
  by (simp add: List.map_filter_def)

lemma raw_texts_append: "raw_texts tok tag (xs @ ys) = raw_texts tok tag xs @ raw_texts tok tag ys"
  by (simp add: raw_texts_def fragments_def notifications_def map_filter_append)

lemma payloads_append: "payloads tok kind (xs @ ys) = payloads tok kind xs @ payloads tok kind ys"
  by (simp add: payloads_def notifications_def map_filter_append)

lemma failures_append: "failures tok (xs @ ys) = failures tok xs @ failures tok ys"
  by (simp add: failures_def notifications_def map_filter_append)

lemma raw_texts_Cons: "raw_texts tok tag (m # ms) = raw_texts tok tag [m] @ raw_texts tok tag ms"
  using raw_texts_append [of tok tag "[m]" ms] by simp

lemma payloads_Cons: "payloads tok kind (m # ms) = payloads tok kind [m] @ payloads tok kind ms"
  using payloads_append [of tok kind "[m]" ms] by simp

lemma failures_Cons: "failures tok (m # ms) = failures tok [m] @ failures tok ms"
  using failures_append [of tok "[m]" ms] by simp

lemma last_last: "last (last (r # xs) # ys) = last (r # xs @ ys)"
  by (cases ys) simp_all

lemma absorbed_Cons: "absorbed tok (m # ms) a = absorbed tok ms (absorbed tok [m] a)"
  unfolding absorbed_def
  by (simp add: raw_texts_Cons [of tok _ m ms] payloads_Cons [of tok _ m ms]
      failures_Cons [of tok m ms] last_last del: last.simps)

lemma raw_texts_single:
  "raw_texts tok tag [m] =
     (if parent_msg_id m = Some tok \<and> msg_type m = ''stream'' \<and>
         content m ''name'' = Some (JStr tag)
      then (case content m ''text'' of None \<Rightarrow> [] | Some t \<Rightarrow> [t]) else [])"
  by (simp add: raw_texts_def fragments_def notifications_def split: option.splits)

lemma payloads_single:
  "payloads tok kind [m] =
     (if parent_msg_id m = Some tok \<and> msg_type m = kind
      then (case content m ''data'' of None \<Rightarrow> [] | Some d \<Rightarrow> [d]) else [])"
  by (simp add: payloads_def notifications_def split: option.splits)

lemma failures_single:
  "failures tok [m] =
     (if parent_msg_id m = Some tok \<and> msg_type m = ''error''
      then (case failure_of m of None \<Rightarrow> [] | Some f \<Rightarrow> [f]) else [])"
  by (simp add: failures_def notifications_def split: option.splits)

lemma body_Continue:
  assumes "loop_body tok m a = Continue a'"
  shows "a' = absorbed tok [m] a"
proof -
  consider (foreign) "parent_msg_id m \<noteq> Some tok"
    | (stream) "parent_msg_id m = Some tok" "msg_type m = ''stream''"
    | (computed) "parent_msg_id m = Some tok" "msg_type m = ''execute_result''"
    | (display) "parent_msg_id m = Some tok" "msg_type m = ''display_data''"
    | (failure) "parent_msg_id m = Some tok" "msg_type m = ''error''"
    | (status) "parent_msg_id m = Some tok" "msg_type m = ''status''"
    | (unknown) "parent_msg_id m = Some tok" "msg_type m \<noteq> ''stream''"
        "msg_type m \<noteq> ''execute_result''" "msg_type m \<noteq> ''display_data''"
        "msg_type m \<noteq> ''error''" "msg_type m \<noteq> ''status''"
    by blast
  then show ?thesis
  proof cases
    case foreign
    with assms show ?thesis
      by (simp add: loop_body_def absorbed_def raw_texts_single payloads_single failures_single)
  next
    case stream
    with assms show ?thesis
      by (auto simp add: loop_body_def absorbed_def raw_texts_single payloads_single
          failures_single split: sum.splits if_splits)
  next
    case computed
    with assms show ?thesis
      by (auto simp add: loop_body_def absorbed_def raw_texts_single payloads_single
          failures_single split: sum.splits)
  next
    case display
    with assms show ?thesis
      by (auto simp add: loop_body_def absorbed_def raw_texts_single payloads_single
          failures_single split: sum.splits)
  next
    case failure
    with assms show ?thesis
      by (auto simp add: loop_body_def absorbed_def raw_texts_single payloads_single
          failures_single failure_of_def split: sum.splits)
  next
    case status
    with assms show ?thesis
      by (auto simp add: loop_body_def absorbed_def raw_texts_single payloads_single
          failures_single split: sum.splits if_splits)
  next
    case unknown
    with assms show ?thesis
      by (simp add: loop_body_def absorbed_def raw_texts_single payloads_single failures_single)
  qed
qed

lemma consume_Running:
  "consume tok ms a = Running a' \<Longrightarrow> a' = absorbed tok ms a"
proof (induction ms arbitrary: a)
  case Nil
  then show ?case by simp
next
  case (Cons m ms)
  then obtain a1 where a1: "loop_body tok m a = Continue a1" and r: "consume tok ms a1 = Running a'"
    by (auto split: flow.splits)
  from Cons.IH [OF r] body_Continue [OF a1] show ?case
    by (simp add: absorbed_Cons [of tok m ms a])
qed

lemma body_conforming:
  assumes "parent_msg_id m = Some tok \<longrightarrow> conforms m" and "\<not> is_idle tok m"
  shows "\<exists>a'. loop_body tok m a = Continue a'"
proof (cases "parent_msg_id m = Some tok")
  case False
  then show ?thesis by (simp add: body_other_request)
next
  case True
  with assms have c: "conforms m" by simp
  show ?thesis
  proof (cases "loop_body tok m a")
    case (Continue a')
    then show ?thesis by simp
  next
    case Break
    with assms(2) show ?thesis by (simp add: body_Break_iff)
  next
    case (Raise e)
    with True c have False
      unfolding loop_body_def conforms_def
      by (simp split: if_splits sum.splits option.splits json.splits)
    then show ?thesis ..
  qed
qed

lemma consume_conforming:
  assumes "\<forall>m\<in>set ms. (parent_msg_id m = Some tok \<longrightarrow> conforms m) \<and> \<not> is_idle tok m"
  shows "consume tok ms a = Running (absorbed tok ms a)"
proof -
  from assms have "\<exists>a'. consume tok ms a = Running a'"
  proof (induction ms arbitrary: a)
    case Nil
    show ?case by simp
  next
    case (Cons m ms)
    then obtain a1 where "loop_body tok m a = Continue a1"
      using body_conforming [of m tok a] by auto
    with Cons show ?case by simp
  qed
  then show ?thesis using consume_Running by blast
qed

lemma consume_not_Returned:
  assumes "\<forall>m\<in>set ms. \<not> is_idle tok m"
  shows "consume tok ms a \<noteq> Returned a'"
  using assms
proof (induction ms arbitrary: a)
  case Nil
  show ?case by simp
next
  case (Cons m ms)
  then have "loop_body tok m a \<noteq> Break" by (simp add: body_Break_iff)
  with Cons show ?case by (simp split: flow.splits)
qed

lemma run_conforming:
  assumes "\<forall>m\<in>set ms. (parent_msg_id m = Some tok \<longrightarrow> conforms m) \<and> \<not> is_idle tok m"
  shows "receive_loop tok (map Received ms @- ch) a = receive_loop tok ch (absorbed tok ms a)"
  by (simp add: loop_prefix consume_conforming [OF assms])

lemma run_returned:
  assumes "\<forall>m\<in>set ms. \<not> is_idle tok m" and "ends_loop tok t"
    and "receive_loop tok (map Received ms @- (t ## rest)) a = Some (Inr a')"
  shows "consume tok ms a = Running a'"
proof (cases "consume tok ms a")
  case (Running b)
  with assms(3) loop_ends [OF assms(2)] show ?thesis by (simp add: loop_prefix)
next
  case (Returned b)
  with consume_not_Returned [OF assms(1)] show ?thesis by blast
next
  case (Raised e)
  with assms(3) show ?thesis by (simp add: loop_prefix)
qed

lemma loop_returns_only_at_end:
  assumes "receive_loop tok s a = Some r"
  shows "\<forall>a'. r = Inr a' \<longrightarrow>
    (\<exists>ms t rest. s = map Received ms @- (t ## rest) \<and> (\<forall>m\<in>set ms. \<not> is_idle tok m) \<and>
       ends_loop tok t \<and> consume tok ms a = Running a')"
  using assms
proof (induction rule: receive_loop.raw_induct)
  case (1 loop tok s a r)
  show ?case
  proof (cases "shd s")
    case (Failed e)
    with 1(2) have r: "r = Inr a" by simp
    have "s = map Received [] @- (Failed e ## stl s)"
      using Failed by (simp add: stream.expand)
    moreover have "ends_loop tok (Failed e)" by (simp add: ends_loop_def)
    ultimately show ?thesis using r
      by (intro allI impI exI [of _ "[]"] exI [of _ "Failed e"] exI [of _ "stl s"]) simp
  next
    case (Received m)
    have s: "s = Received m ## stl s" using Received by (simp add: stream.expand)
    show ?thesis
    proof (cases "loop_body tok m a")
      case (Continue a1)
      with 1(2) Received have l: "loop tok (stl s) a1 = Some r" by simp
      from 1(3) Continue have l': "receive_loop tok (stl s) a1 = Some r"
        by (subst (asm) s) (simp add: loop_Received)
      have n: "\<not> is_idle tok m" using Continue body_Break_iff [of tok m a] by simp
      show ?thesis
      proof (intro allI impI)
        fix a' assume "r = Inr a'"
        with 1(1) [OF l l'] obtain ms t rest where
          d: "stl s = map Received ms @- (t ## rest)" "\<forall>m\<in>set ms. \<not> is_idle tok m"
            "ends_loop tok t" "consume tok ms a1 = Running a'"
          by blast
        from s d(1) have "s = map Received (m # ms) @- (t ## rest)" by simp
        moreover from n d(2) have "\<forall>x\<in>set (m # ms). \<not> is_idle tok x" by simp
        moreover from Continue d(4) have "consume tok (m # ms) a = Running a'" by simp
        ultimately show "\<exists>ms t rest. s = map Received ms @- (t ## rest) \<and>
            (\<forall>m\<in>set ms. \<not> is_idle tok m) \<and> ends_loop tok t \<and> consume tok ms a = Running a'"
          using d(3) by blast
      qed
    next
      case Break
      with 1(2) Received have r: "r = Inr a" by simp
      from Break have "is_idle tok m" by (simp add: body_Break_iff)
      then have "ends_loop tok (Received m)" by (simp add: ends_loop_def)
      moreover have "s = map Received [] @- (Received m ## stl s)" using s by simp
      ultimately show ?thesis using r
        by (intro allI impI exI [of _ "[]"] exI [of _ "Received m"] exI [of _ "stl s"]) simp
    next
      case (Raise e)
      with 1(2) Received have "r = Inl e" by simp
      then show ?thesis by simp
    qed
  qed
qed (rule assms)

section \<open>Building the CellOutput\<close>

lemma join_texts:
  "str_join (List.map_filter (\<lambda>m. content m ''text'') frs) = Inr s
     \<Longrightarrow> s = concat (map text_of frs)"
proof (induction frs arbitrary: s)
  case Nil
  then show ?case by simp
next
  case (Cons m frs)
  show ?case
  proof (cases "content m ''text''")
    case None
    with Cons show ?thesis by (simp add: text_of_def)
  next
    case (Some t)
    with Cons.prems obtain u r where "t = JStr u"
      and "str_join (List.map_filter (\<lambda>m. content m ''text'') frs) = Inr r" and "s = u @ r"
      by (cases t) (auto split: sum.splits)
    with Cons.IH [of r] Some show ?thesis by (simp add: text_of_def)
  qed
qed

lemma join_conforming:
  assumes "\<forall>m\<in>set frs. \<exists>t. content m ''text'' = Some (JStr t)"
  shows "str_join (List.map_filter (\<lambda>m. content m ''text'') frs) = Inr (concat (map text_of frs))"
  using assms by (induction frs) (auto simp add: text_of_def)

lemma join_all_str: "str_join ps = Inr s \<Longrightarrow> p \<in> set ps \<Longrightarrow> \<exists>u. p = JStr u"
proof (induction ps arbitrary: s)
  case Nil
  then show ?case by simp
next
  case (Cons q ps)
  from Cons.prems(1) obtain u r where q: "q = JStr u" and r: "str_join ps = Inr r"
    by (cases q) (auto split: sum.splits)
  show ?case
  proof (cases "p = q")
    case True
    with q show ?thesis by blast
  next
    case False
    with Cons.prems(2) have "p \<in> set ps" by simp
    from Cons.IH [OF r this] show ?thesis .
  qed
qed

lemma fragment_text:
  assumes "m \<in> set (fragments tok tag ms)" and "tag = ''stdout'' \<or> tag = ''stderr''"
    and "\<forall>m\<in>set ms. parent_msg_id m = Some tok \<longrightarrow> conforms m"
  shows "\<exists>t. content m ''text'' = Some (JStr t)"
proof -
  from assms(1) have "m \<in> set ms" "parent_msg_id m = Some tok" "msg_type m = ''stream''"
    "content m ''name'' = Some (JStr tag)"
    by (simp_all add: fragments_def notifications_def)
  with assms(3) have "conforms m" by blast
  with assms(2) \<open>msg_type m = ''stream''\<close> \<open>content m ''name'' = Some (JStr tag)\<close>
  show ?thesis
    by (auto simp add: conforms_def split: option.splits json.splits)
qed

lemma output_is_summary:
  assumes "make_CellOutput (absorbed tok ms initial) = Inr out"
  shows "out = summary tok ms"
proof -
  from assms obtain so se where so: "str_join (raw_texts tok ''stdout'' ms) = Inr so"
    and se: "str_join (raw_texts tok ''stderr'' ms) = Inr se"
    and out: "out = \<lparr>stdout = so, stderr = se,
      result = last (JNull # payloads tok ''execute_result'' ms),
      display_data = payloads tok ''display_data'' ms,
      error = last (JNull # failures tok ms)\<rparr>"
    by (auto simp add: make_CellOutput_def absorbed_def initial_def split: sum.splits)
  from so se have "so = concat (map text_of (fragments tok ''stdout'' ms))"
    and "se = concat (map text_of (fragments tok ''stderr'' ms))"
    by (simp_all add: raw_texts_def join_texts)
  with out show ?thesis by (simp add: summary_def)
qed

lemma output_conforming:
  assumes "\<forall>m\<in>set ms. parent_msg_id m = Some tok \<longrightarrow> conforms m"
  shows "make_CellOutput (absorbed tok ms initial) = Inr (summary tok ms)"
proof -
  have "str_join (raw_texts tok ''stdout'' ms) = Inr (concat (map text_of (fragments tok ''stdout'' ms)))"
    unfolding raw_texts_def using assms by (intro join_conforming ballI fragment_text) auto
  moreover have "str_join (raw_texts tok ''stderr'' ms) = Inr (concat (map text_of (fragments tok ''stderr'' ms)))"
    unfolding raw_texts_def using assms by (intro join_conforming ballI fragment_text) auto
  ultimately show ?thesis
    by (simp add: make_CellOutput_def absorbed_def initial_def summary_def)
qed

lemma output_joins:
  assumes "make_CellOutput (absorbed tok ms initial) = Inr out"
  shows "str_join (raw_texts tok ''stdout'' ms) = Inr (stdout out) \<and>
    str_join (raw_texts tok ''stderr'' ms) = Inr (stderr out)"
  using assms
  by (auto simp add: make_CellOutput_def absorbed_def initial_def split: sum.splits)

lemma exec_conforming:
  assumes "execute c code = Inr tok"
    and "get_iopub_msg c code (timeout_or timeout 600) = map Received ms @- (t ## rest)"
    and "\<forall>m\<in>set ms. (parent_msg_id m = Some tok \<longrightarrow> conforms m) \<and> \<not> is_idle tok m"
    and "ends_loop tok t"
  shows "execute_code env code (Some c) timeout w = Some (Inr (summary tok ms), w)"
proof -
  have "receive_loop tok (map Received ms @- (t ## rest)) initial
      = Some (Inr (absorbed tok ms initial))"
    by (simp add: run_conforming [OF assms(3)] loop_ends [OF assms(4)])
  moreover have "make_CellOutput (absorbed tok ms initial) = Inr (summary tok ms)"
    using assms(3) by (intro output_conforming) blast
  ultimately show ?thesis
    using assms(1,2) by (simp add: execute_code_Some execute_on_def)
qed

lemma exec_returned:
  assumes "execute c code = Inr tok"
    and "get_iopub_msg c code (timeout_or timeout 600) = map Received ms @- (t ## rest)"
    and "\<forall>m\<in>set ms. \<not> is_idle tok m"
    and "ends_loop tok t"
    and "execute_code env code (Some c) timeout w = Some (Inr out, w')"
  shows "consume tok ms initial = Running (absorbed tok ms initial) \<and> out = summary tok ms"
proof -
  from assms(1,2,5) obtain a' where
    l: "receive_loop tok (map Received ms @- (t ## rest)) initial = Some (Inr a')"
    and o: "make_CellOutput a' = Inr out"
    by (auto simp add: execute_code_Some execute_on_def split: option.splits sum.splits)
  from run_returned [OF assms(3,4) l] have r: "consume tok ms initial = Running a'" .
  then have "a' = absorbed tok ms initial" by (rule consume_Running)
  with r o show ?thesis by (simp add: output_is_summary)
qed

lemma exec_returned_joins:
  assumes "execute c code = Inr tok"
    and "get_iopub_msg c code (timeout_or timeout 600) = map Received ms @- (t ## rest)"
    and "\<forall>m\<in>set ms. \<not> is_idle tok m"
    and "ends_loop tok t"
    and "execute_code env code (Some c) timeout w = Some (Inr out, w')"
  shows "str_join (raw_texts tok ''stdout'' ms) = Inr (stdout out) \<and>
    str_join (raw_texts tok ''stderr'' ms) = Inr (stderr out)"
proof -
  from assms(1,2,5) obtain a' where
    l: "receive_loop tok (map Received ms @- (t ## rest)) initial = Some (Inr a')"
    and o: "make_CellOutput a' = Inr out"
    by (auto simp add: execute_code_Some execute_on_def split: option.splits sum.splits)
  from run_returned [OF assms(3,4) l] have "consume tok ms initial = Running a'" .
  then have "a' = absorbed tok ms initial" by (rule consume_Running)
  with o show ?thesis by (simp add: output_joins)
qed

lemma body_Continue_present:
  assumes "loop_body tok m a = Continue a'" and "parent_msg_id m = Some tok"
  shows "(msg_type m = ''execute_result'' \<or> msg_type m = ''display_data''
            \<longrightarrow> content m ''data'' \<noteq> None) \<and>
         (msg_type m = ''stream'' \<and> (content m ''name'' = Some (JStr ''stdout'')
            \<or> content m ''name'' = Some (JStr ''stderr'')) \<longrightarrow> content m ''text'' \<noteq> None) \<and>
         (msg_type m = ''error'' \<longrightarrow> failure_of m \<noteq> None)"
proof (intro conjI impI)
  assume "msg_type m = ''execute_result'' \<or> msg_type m = ''display_data''"
  with assms show "content m ''data'' \<noteq> None"
    by (auto simp add: loop_body_def split: sum.splits)
next
  assume "msg_type m = ''stream'' \<and> (content m ''name'' = Some (JStr ''stdout'')
            \<or> content m ''name'' = Some (JStr ''stderr''))"
  with assms show "content m ''text'' \<noteq> None"
    by (auto simp add: loop_body_def split: sum.splits)
next
  assume "msg_type m = ''error''"
  with assms show "failure_of m \<noteq> None"
    by (auto simp add: loop_body_def failure_of_def split: sum.splits)
qed

lemma consume_present:
  assumes "consume tok ms a = Running a'" and "m \<in> set ms" and "parent_msg_id m = Some tok"
  shows "(msg_type m = ''execute_result'' \<or> msg_type m = ''display_data''
            \<longrightarrow> content m ''data'' \<noteq> None) \<and>
         (msg_type m = ''stream'' \<and> (content m ''name'' = Some (JStr ''stdout'')
            \<or> content m ''name'' = Some (JStr ''stderr'')) \<longrightarrow> content m ''text'' \<noteq> None) \<and>
         (msg_type m = ''error'' \<longrightarrow> failure_of m \<noteq> None)"
  using assms
proof (induction ms arbitrary: a)
  case Nil
  then show ?case by simp
next
  case (Cons x ms)
  from Cons.prems(1) obtain a1 where a1: "loop_body tok x a = Continue a1"
    and r: "consume tok ms a1 = Running a'"
    by (auto split: flow.splits)
  show ?case
  proof (cases "m = x")
    case True
    with a1 Cons.prems(3) show ?thesis using body_Continue_present [of tok x a a1] by simp
  next
    case False
    with Cons.prems(2) have "m \<in> set ms" by simp
    from Cons.IH [OF r this Cons.prems(3)] show ?thesis .
  qed
qed

lemma map_filter_total:
  "\<forall>x\<in>set xs. f x \<noteq> None \<Longrightarrow> map f xs = map Some (List.map_filter f xs)"
  by (induction xs) auto

lemma payloads_all:
  assumes "consume tok ms a = Running a'"
    and "kind = ''execute_result'' \<or> kind = ''display_data''"
  shows "map (\<lambda>m. content m ''data'') (notifications tok kind ms) = map Some (payloads tok kind ms)"
  unfolding payloads_def
proof (rule map_filter_total, rule ballI)
  fix m assume "m \<in> set (notifications tok kind ms)"
  then have "m \<in> set ms" "parent_msg_id m = Some tok" "msg_type m = kind"
    by (simp_all add: notifications_def)
  with consume_present [OF assms(1), of m] assms(2) show "content m ''data'' \<noteq> None"
    by blast
qed

lemma failures_all:
  assumes "consume tok ms a = Running a'"
  shows "map failure_of (notifications tok ''error'' ms) = map Some (failures tok ms)"
  unfolding failures_def
proof (rule map_filter_total, rule ballI)
  fix m assume "m \<in> set (notifications tok ''error'' ms)"
  then have "m \<in> set ms" "parent_msg_id m = Some tok" "msg_type m = ''error''"
    by (simp_all add: notifications_def)
  with consume_present [OF assms(1), of m] show "failure_of m \<noteq> None"
    by blast
qed

lemma fragment_text_returned:
  assumes "consume tok ms a = Running a'"
    and "str_join (raw_texts tok tag ms) = Inr s"
    and "tag = ''stdout'' \<or> tag = ''stderr''"
    and "m \<in> set (fragments tok tag ms)"
  shows "content m ''text'' = Some (JStr (text_of m))"
proof -
  from assms(4) have "m \<in> set ms" "parent_msg_id m = Some tok" "msg_type m = ''stream''"
    "content m ''name'' = Some (JStr tag)"
    by (simp_all add: fragments_def notifications_def)
  with consume_present [OF assms(1), of m] assms(3)
  obtain t where t: "content m ''text'' = Some t" by blast
  with assms(4) have "t \<in> set (raw_texts tok tag ms)"
    by (force simp add: raw_texts_def List.map_filter_def)
  from join_all_str [OF assms(2) this] obtain u where "t = JStr u" ..
  with t show ?thesis by (simp add: text_of_def)
qed

section \<open>The session store, case by case\<close>

lemma json_loads_Inl: "json_loads t = Inl e \<Longrightarrow> e = JSONDecodeError \<or> e = RecursionError"
  by (cases t) auto

lemma kwargs_Inl: "KernelState_kwargs d = Inl e \<Longrightarrow> e = TypeError"
  by (cases d) (auto split: option.splits if_splits)

lemma Path_Inl: "Path v = Inl e \<Longrightarrow> e = TypeError"
  by (cases v) simp_all

lemma Path_Inr: "Path v = Inr p \<longleftrightarrow> v = JStr p"
  by (cases v) auto

lemma kwargs_asdict: "KernelState_kwargs (asdict st) = Inr st"
  by (simp add: asdict_def)

lemma os_kill_probe:
  "os_kill env p 0 w = (kill_check env p w, w)"
  by (simp add: os_kill_def split: option.splits)

lemma save_state_eq: "save_state st w = w\<lparr>state_file := Some (Text (JSON (asdict st)))\<rparr>"
  by (simp add: save_state_def save_state_steps_def write_text_steps_def)

lemma load_absent: "state_file w = None \<Longrightarrow> load_state env w = (Inr None, w)"
  by (simp add: load_state_def)

lemma load_unreadable:
  assumes "state_file w = Some (Unreadable e)"
  shows "load_state env w = (if is_decode_error e then (Inr None, clear_state w) else (Inl e, w))"
  using assms by (simp add: load_state_def)

lemma load_undecodable:
  assumes "state_file w = Some (Text t)" and "json_loads t = Inl e"
  shows "load_state env w = (if is_decode_error e then (Inr None, clear_state w) else (Inl e, w))"
  using assms by (simp add: load_state_def)

lemma load_wrong_shape:
  assumes "state_file w = Some (Text t)" and "json_loads t = Inr d"
    and "KernelState_kwargs d = Inl e"
  shows "load_state env w = (Inr None, clear_state w)"
  using assms kwargs_Inl [OF assms(3)] by (simp add: load_state_def)

lemma load_parsed:
  assumes "state_file w = Some (Text t)" and "json_loads t = Inr d"
    and "KernelState_kwargs d = Inr st"
  shows "load_state env w =
     (case kill_check env (pid st) w of
        Some e \<Rightarrow> if is_OSError e \<or> is_decode_error e then (Inr None, clear_state w)
                  else (Inl e, w)
      | None \<Rightarrow>
          (case connection_file st of
             JStr p \<Rightarrow>
               (case path_exists env p w of
                  Inl e \<Rightarrow> if is_decode_error e then (Inr None, clear_state w) else (Inl e, w)
                | Inr found \<Rightarrow> if found then (Inr (Some st), w)
                               else (Inr None, clear_state w))
           | _ \<Rightarrow> (Inr None, clear_state w)))"
  using assms
  by (simp add: load_state_def os_kill_probe split: option.splits json.splits sum.splits)

lemma load_cases:
  "load_state env w =
     (case state_file w of
        None \<Rightarrow> (Inr None, w)
      | Some (Unreadable e) \<Rightarrow>
          if is_decode_error e then (Inr None, clear_state w) else (Inl e, w)
      | Some (Text t) \<Rightarrow>
          (case json_loads t of
             Inl e \<Rightarrow> if is_decode_error e then (Inr None, clear_state w) else (Inl e, w)
           | Inr d \<Rightarrow>
               (case KernelState_kwargs d of
                  Inl e \<Rightarrow> (Inr None, clear_state w)
                | Inr st \<Rightarrow>
                    (case kill_check env (pid st) w of
                       Some e \<Rightarrow>
                         if is_OSError e \<or> is_decode_error e then (Inr None, clear_state w)
                         else (Inl e, w)
                     | None \<Rightarrow>
                         (case connection_file st of
                            JStr p \<Rightarrow>
                              (case path_exists env p w of
                                 Inl e \<Rightarrow> if is_decode_error e then (Inr None, clear_state w)
                                           else (Inl e, w)
                               | Inr found \<Rightarrow> if found then (Inr (Some st), w)
                                              else (Inr None, clear_state w))
                          | _ \<Rightarrow> (Inr None, clear_state w))))))"
proof (cases "state_file w")
  case None
  then show ?thesis by (simp add: load_absent)
next
  case (Some f)
  show ?thesis
  proof (cases f)
    case (Unreadable e)
    with Some show ?thesis by (simp add: load_unreadable)
  next
    case (Text t)
    show ?thesis
    proof (cases "json_loads t")
      case (Inl e)
      with Some Text show ?thesis by (simp add: load_undecodable)
    next
      case (Inr d)
      show ?thesis
      proof (cases "KernelState_kwargs d")
        case (Inl e)
        with Some Text Inr show ?thesis by (simp add: load_wrong_shape)
      next
        case st: (Inr st)
        with Some Text Inr show ?thesis by (simp add: load_parsed)
      qed
    qed
  qed
qed

lemma load_Some_iff:
  "load_state env w = (Inr (Some st), w') \<longleftrightarrow>
     w' = w \<and> (\<exists>t d p. state_file w = Some (Text t) \<and> json_loads t = Inr d \<and>
       KernelState_kwargs d = Inr st \<and> kill_check env (pid st) w = None \<and>
       connection_file st = JStr p \<and> path_exists env p w = Inr True)"
  unfolding load_cases
  by (auto split: option.splits sum.splits json.splits if_splits file_content.splits)

lemma load_None_world:
  "load_state env w = (Inr None, w') \<Longrightarrow>
     state_file w' = None \<and> (state_file w = None \<longrightarrow> w' = w) \<and>
     (state_file w \<noteq> None \<longrightarrow> w' = clear_state w)"
  unfolding load_cases
  by (auto simp add: clear_state_def
      split: option.splits sum.splits json.splits if_splits file_content.splits)

lemma load_Inl_same: "load_state env w = (Inl e, w') \<Longrightarrow> w' = w \<and> state_file w \<noteq> None"
  unfolding load_cases
  by (auto split: option.splits sum.splits json.splits if_splits file_content.splits)

lemma load_Some_same: "load_state env w = (Inr (Some st), w1) \<Longrightarrow> w1 = w"
  by (simp add: load_Some_iff)

lemma start_running:
  assumes "load_state env w = (Inr (Some st), w1)"
  shows "start_kernel env name w = (Inl already_running, w)"
  using assms load_Some_same [OF assms] by (simp add: start_kernel_def)

lemma start_again_running:
  assumes "load_state env w = (Inr (Some st), w1)"
  shows "start_again n env name w = (replicate n (Inl already_running), w)"
  by (induction n) (simp_all add: start_running [OF assms])

lemma start_fresh:
  assumes "load_state env w = (Inr None, w1)"
    and "km_start_kernel env name w1 = (Inr (cf, p), w2)"
  shows "start_kernel env name w =
     (Inr \<lparr>connection_file = JStr cf, kernel_name = JStr name, pid = JInt p\<rparr>,
      w2\<lparr>state_file := Some (Text (JSON (asdict
        \<lparr>connection_file = JStr cf, kernel_name = JStr name, pid = JInt p\<rparr>)))\<rparr>)"
  using assms by (simp add: start_kernel_def save_state_eq Let_def)

lemma start_persists:
  assumes "start_kernel env name w = (Inr st, w3)"
  shows "state_file w3 = Some (Text (JSON (asdict st)))"
  using assms
  by (auto simp add: start_kernel_def save_state_eq Let_def
      split: prod.splits sum.splits option.splits)

lemma load_after_start:
  assumes "start_kernel env name w = (Inr st, w3)"
    and "kill_check env (pid st) w3 = None"
    and "connection_file st = JStr cf" and "path_exists env cf w3 = Inr True"
  shows "load_state env w3 = (Inr (Some st), w3)"
  using start_persists [OF assms(1)] assms(2-4)
  by (simp add: load_Some_iff kwargs_asdict)

lemma stop_no_record:
  assumes "load_state env w = (Inr None, w1)"
  shows "stop_kernel env w = (Inr False, w1)"
  using assms by (simp add: stop_kernel_def)

lemma stop_load_raises:
  assumes "load_state env w = (Inl e, w1)"
  shows "stop_kernel env w = (Inl e, w) \<and> is_kernel_running env w = (Inl e, w)"
  using assms load_Inl_same [OF assms] by (simp add: stop_kernel_def is_kernel_running_def)

section \<open>The test doubles evaluated\<close>

lemmas fixture_defs = stale_idle_def busy_def idle_def out42_def warn_def value42_def
  picture_def name_error_def out43_def message_def scripted_def

lemmas store_fixture_defs = record_7_def record_8_def running_world_def crashed_world_def
  cleared_world_def binary_world_def overflow_world_def half_written_world_def
  empty_world_def test_env_def asdict_def clear_state_def

lemma load_crashed: "load_state test_env crashed_world = (Inr None, cleared_world)"
  by (simp add: load_cases store_fixture_defs)

lemma load_running: "load_state test_env running_world = (Inr (Some record_7), running_world)"
  by (simp add: load_cases store_fixture_defs)

lemma load_binary: "load_state test_env binary_world = (Inl UnicodeDecodeError, binary_world)"
  by (simp add: load_cases store_fixture_defs)

lemma load_overflow: "load_state test_env overflow_world = (Inl OverflowError, overflow_world)"
  by (simp add: load_cases store_fixture_defs)

lemma stop_kernel_deletes_stale_record:
  "stop_kernel test_env crashed_world = (Inr False, cleared_world) \<and>
   cleared_world \<noteq> crashed_world"
  by (simp only: load_crashed stop_kernel_def) (simp add: store_fixture_defs)

section \<open>Claims about the execution engine\<close>

text \<open>
  Claim C1. A message whose parent \<^verbatim>\<open>msg_id\<close> is not the \<^verbatim>\<open>msg_id\<close> returned by
  \<^verbatim>\<open>client.execute\<close> is discarded: the loop body leaves every variable as it was and
  the loop goes on with the next receive. Hence two sequences of receive outcomes that
  differ only in such messages (those of an earlier, completed request among them)
  give the same loop result: in front of the same continuation, and in front of any
  two continuations once the loop ends within them. So \<^verbatim>\<open>execute_code\<close> returns the
  same for two clients that differ only so.
\<close>

theorem other_requests_discarded:
  "(parent_msg_id m \<noteq> Some tok \<longrightarrow>
      loop_body tok m a = Continue a \<and>
      receive_loop tok (Received m ## ch) a = receive_loop tok ch a) \<and>
   (filter (relevant tok) xs = filter (relevant tok) ys \<longrightarrow>
      receive_loop tok (xs @- ch) a = receive_loop tok (ys @- ch) a) \<and>
   (filter (relevant tok) xs = filter (relevant tok) ys \<and> (\<exists>r\<in>set xs. ends_loop tok r) \<longrightarrow>
      receive_loop tok (xs @- ch) a = receive_loop tok (ys @- ch') a) \<and>
   (filter (relevant tok) xs = filter (relevant tok) ys \<and>
    execute c1 code = Inr tok \<and> execute c2 code = Inr tok \<and>
    get_iopub_msg c1 code (timeout_or timeout 600) = xs @- ch \<and>
    get_iopub_msg c2 code (timeout_or timeout 600) = ys @- ch \<longrightarrow>
      execute_code env code (Some c1) timeout w = execute_code env code (Some c2) timeout w)"
proof (intro conjI impI)
  assume "parent_msg_id m \<noteq> Some tok"
  then show "loop_body tok m a = Continue a"
    and "receive_loop tok (Received m ## ch) a = receive_loop tok ch a"
    by (simp_all add: body_other_request loop_skip)
next
  assume "filter (relevant tok) xs = filter (relevant tok) ys"
  then show "receive_loop tok (xs @- ch) a = receive_loop tok (ys @- ch) a"
    using loop_filter [of tok xs ch a] loop_filter [of tok ys ch a] by simp
next
  assume h: "filter (relevant tok) xs = filter (relevant tok) ys \<and> (\<exists>r\<in>set xs. ends_loop tok r)"
  then obtain r where "r \<in> set xs" and e: "ends_loop tok r" by blast
  then have "r \<in> set (filter (relevant tok) xs)" by (simp add: ends_loop_relevant)
  with h have "r \<in> set ys" by simp
  with e have "receive_loop tok (ys @- ch) a = receive_loop tok (ys @- ch') a"
    by (intro loop_tail_indep) blast
  with h show "receive_loop tok (xs @- ch) a = receive_loop tok (ys @- ch') a"
    using loop_filter [of tok xs ch a] loop_filter [of tok ys ch a] by simp
next
  assume h: "filter (relevant tok) xs = filter (relevant tok) ys \<and>
    execute c1 code = Inr tok \<and> execute c2 code = Inr tok \<and>
    get_iopub_msg c1 code (timeout_or timeout 600) = xs @- ch \<and>
    get_iopub_msg c2 code (timeout_or timeout 600) = ys @- ch"
  then have "receive_loop tok (xs @- ch) initial = receive_loop tok (ys @- ch) initial"
    using loop_filter [of tok xs ch initial] loop_filter [of tok ys ch initial] by simp
  with h show "execute_code env code (Some c1) timeout w = execute_code env code (Some c2) timeout w"
    by (simp add: execute_code_Some execute_on_def)
qed

theorem other_requests_discarded_witness:
  "parent_msg_id stale_idle \<noteq> Some ''req-2'' \<and>
   loop_body ''req-2'' stale_idle initial = Continue initial \<and>
   filter (relevant ''req-2'') [Received stale_idle, Received out42, Received idle]
     = filter (relevant ''req-2'') [Received out42, Received stale_idle, Received idle] \<and>
   receive_loop ''req-2''
       ([Received stale_idle, Received out42, Received idle] @- sconst (Failed Empty)) initial
     = receive_loop ''req-2''
       ([Received out42, Received stale_idle, Received idle] @- sconst (Received busy)) initial \<and>
   execute_code test_env ''print(6 * 7)''
       (Some (scripted ''req-2'' [Received stale_idle, Received out42, Received idle]))
       None empty_world
     = execute_code test_env ''print(6 * 7)''
       (Some (scripted ''req-2'' [Received out42, Received stale_idle, Received idle]))
       None empty_world"
proof -
  let ?xs = "[Received stale_idle, Received out42, Received idle]"
  let ?ys = "[Received out42, Received stale_idle, Received idle]"
  have p: "parent_msg_id stale_idle \<noteq> Some ''req-2''"
    by (simp add: fixture_defs)
  have f: "filter (relevant ''req-2'') ?xs = filter (relevant ''req-2'') ?ys"
    by (simp add: relevant_def fixture_defs)
  have i: "\<exists>r\<in>set ?xs. ends_loop ''req-2'' r"
    by (simp add: ends_loop_def is_idle_def fixture_defs)
  have e: "execute (scripted ''req-2'' ?xs) ''print(6 * 7)'' = Inr ''req-2''"
    "execute (scripted ''req-2'' ?ys) ''print(6 * 7)'' = Inr ''req-2''"
    by (simp_all add: scripted_def)
  have g: "get_iopub_msg (scripted ''req-2'' ?xs) ''print(6 * 7)'' (timeout_or None 600)
      = ?xs @- sconst (Failed Empty)"
    "get_iopub_msg (scripted ''req-2'' ?ys) ''print(6 * 7)'' (timeout_or None 600)
      = ?ys @- sconst (Failed Empty)"
    by (simp_all add: scripted_def)
  note t = other_requests_discarded [where m = stale_idle and tok = "''req-2''" and a = initial
      and ch = "sconst (Failed Empty)" and ch' = "sconst (Received busy)"
      and xs = ?xs and ys = ?ys
      and ?c1.0 = "scripted ''req-2'' ?xs" and ?c2.0 = "scripted ''req-2'' ?ys"
      and code = "''print(6 * 7)''" and timeout = None and env = test_env and w = empty_world]
  from t p have 1: "loop_body ''req-2'' stale_idle initial = Continue initial" by blast
  from t f i have 2: "receive_loop ''req-2'' (?xs @- sconst (Failed Empty)) initial
     = receive_loop ''req-2'' (?ys @- sconst (Received busy)) initial" by blast
  from t f e g have 3: "execute_code test_env ''print(6 * 7)'' (Some (scripted ''req-2'' ?xs))
       None empty_world
     = execute_code test_env ''print(6 * 7)'' (Some (scripted ''req-2'' ?ys)) None empty_world"
    by blast
  from p 1 f 2 3 show ?thesis by blast
qed

text \<open>
  Claim C2, as amended. The loop body breaks exactly on a status message of this
  request whose \<^verbatim>\<open>execution_state\<close> is \<^verbatim>\<open>idle\<close>. The loop returns only after a run of
  received messages, none of them that idle status, at the idle status or at a failed
  receive (the \<^verbatim>\<open>break\<close> of \<^verbatim>\<open>except Exception\<close>), with the variables as the run left
  them; and it does return there when the run conforms to the protocol. A status
  message of this request with any other state neither ends the loop nor changes a
  variable. When the idle status follows a conforming run, \<^verbatim>\<open>execute_code\<close> returns
  the output that the run adds up to.
\<close>

theorem idle_or_failed_receive_ends_loop:
  "(loop_body tok m a = Break \<longleftrightarrow> is_idle tok m) \<and>
   (receive_loop tok s a = Some (Inr a') \<longrightarrow>
      (\<exists>ms t rest. s = map Received ms @- (t ## rest) \<and> (\<forall>x\<in>set ms. \<not> is_idle tok x) \<and>
         ((\<exists>e. t = Failed e) \<or> (\<exists>i. t = Received i \<and> is_idle tok i)) \<and>
         a' = absorbed tok ms a)) \<and>
   ((\<forall>x\<in>set ms. (parent_msg_id x = Some tok \<longrightarrow> conforms x) \<and> \<not> is_idle tok x) \<and>
    ((\<exists>e. t = Failed e) \<or> (\<exists>i. t = Received i \<and> is_idle tok i)) \<longrightarrow>
      receive_loop tok (map Received ms @- (t ## rest)) a = Some (Inr (absorbed tok ms a))) \<and>
   (parent_msg_id m = Some tok \<and> msg_type m = ''status'' \<and>
    content m ''execution_state'' = Some st \<and> st \<noteq> JStr ''idle'' \<longrightarrow>
      loop_body tok m a = Continue a \<and>
      receive_loop tok (Received m ## ch) a = receive_loop tok ch a) \<and>
   ((\<forall>x\<in>set ms. (parent_msg_id x = Some tok \<longrightarrow> conforms x) \<and> \<not> is_idle tok x) \<and>
    is_idle tok m \<and> execute c code = Inr tok \<and>
    get_iopub_msg c code (timeout_or timeout 600) = map Received ms @- (Received m ## ch) \<longrightarrow>
      execute_code env code (Some c) timeout w = Some (Inr (summary tok ms), w))"
proof (intro conjI impI)
  show "loop_body tok m a = Break \<longleftrightarrow> is_idle tok m" by (rule body_Break_iff)
next
  assume "receive_loop tok s a = Some (Inr a')"
  from loop_returns_only_at_end [OF this] obtain ms t rest where
    d: "s = map Received ms @- (t ## rest)" "\<forall>x\<in>set ms. \<not> is_idle tok x"
      "ends_loop tok t" "consume tok ms a = Running a'"
    by blast
  from d(3) have "(\<exists>e. t = Failed e) \<or> (\<exists>i. t = Received i \<and> is_idle tok i)"
    by (cases t) (simp_all add: ends_loop_def)
  moreover from d(4) have "a' = absorbed tok ms a" by (rule consume_Running)
  ultimately show "\<exists>ms t rest. s = map Received ms @- (t ## rest) \<and>
      (\<forall>x\<in>set ms. \<not> is_idle tok x) \<and>
      ((\<exists>e. t = Failed e) \<or> (\<exists>i. t = Received i \<and> is_idle tok i)) \<and>
      a' = absorbed tok ms a"
    using d(1,2) by blast
next
  assume h: "(\<forall>x\<in>set ms. (parent_msg_id x = Some tok \<longrightarrow> conforms x) \<and> \<not> is_idle tok x) \<and>
    ((\<exists>e. t = Failed e) \<or> (\<exists>i. t = Received i \<and> is_idle tok i))"
  then have "ends_loop tok t" by (auto simp add: ends_loop_def)
  with h show "receive_loop tok (map Received ms @- (t ## rest)) a
      = Some (Inr (absorbed tok ms a))"
    by (simp add: run_conforming loop_ends)
next
  assume h: "parent_msg_id m = Some tok \<and> msg_type m = ''status'' \<and>
    content m ''execution_state'' = Some st \<and> st \<noteq> JStr ''idle''"
  then show b: "loop_body tok m a = Continue a" by (simp add: loop_body_def split: sum.splits)
  then show "receive_loop tok (Received m ## ch) a = receive_loop tok ch a"
    by (simp add: loop_Received)
next
  assume h: "(\<forall>x\<in>set ms. (parent_msg_id x = Some tok \<longrightarrow> conforms x) \<and> \<not> is_idle tok x) \<and>
    is_idle tok m \<and> execute c code = Inr tok \<and>
    get_iopub_msg c code (timeout_or timeout 600) = map Received ms @- (Received m ## ch)"
  then have "ends_loop tok (Received m)" by (simp add: ends_loop_def)
  with h show "execute_code env code (Some c) timeout w = Some (Inr (summary tok ms), w)"
    using exec_conforming [of c code tok timeout ms "Received m" ch env w] by blast
qed

theorem idle_or_failed_receive_ends_loop_witness:
  "is_idle ''req-2'' idle \<and>
   loop_body ''req-2'' idle initial = Break \<and>
   receive_loop ''req-2'' (map Received [busy, out42] @- (Received idle ## sconst (Received busy)))
       initial = Some (Inr (absorbed ''req-2'' [busy, out42] initial)) \<and>
   (\<exists>ms t rest.
      map Received [busy, out42] @- (Received idle ## sconst (Received busy))
        = map Received ms @- (t ## rest) \<and> (\<forall>x\<in>set ms. \<not> is_idle ''req-2'' x) \<and>
      ((\<exists>e. t = Failed e) \<or> (\<exists>i. t = Received i \<and> is_idle ''req-2'' i)) \<and>
      absorbed ''req-2'' [busy, out42] initial = absorbed ''req-2'' ms initial) \<and>
   loop_body ''req-2'' busy initial = Continue initial \<and>
   \<not> is_idle ''req-2'' busy \<and> \<not> is_idle ''req-2'' stale_idle \<and> \<not> is_idle ''req-2'' out42 \<and>
   execute_code test_env ''print(6 * 7)''
       (Some (scripted ''req-2'' [Received busy, Received stale_idle, Received out42, Received idle]))
       None empty_world
     = Some (Inr \<lparr>stdout = ''42'', stderr = [], result = JNull, display_data = [],
               error = JNull\<rparr>, empty_world)"
proof -
  let ?s = "map Received [busy, out42] @- (Received idle ## sconst (Received busy))"
  have i: "is_idle ''req-2'' idle" by (simp add: is_idle_def fixture_defs)
  have n: "\<forall>m\<in>set [busy, stale_idle, out42].
      (parent_msg_id m = Some ''req-2'' \<longrightarrow> conforms m) \<and> \<not> is_idle ''req-2'' m"
    by (simp add: is_idle_def conforms_def fixture_defs)
  have n2: "\<forall>m\<in>set [busy, out42].
      (parent_msg_id m = Some ''req-2'' \<longrightarrow> conforms m) \<and> \<not> is_idle ''req-2'' m"
    by (simp add: is_idle_def conforms_def fixture_defs)
  have s: "summary ''req-2'' [busy, stale_idle, out42] =
      \<lparr>stdout = ''42'', stderr = [], result = JNull, display_data = [], error = JNull\<rparr>"
    by (simp add: summary_def fragments_def notifications_def payloads_def failures_def
        text_of_def fixture_defs)
  have b: "parent_msg_id busy = Some ''req-2'' \<and> msg_type busy = ''status'' \<and>
      content busy ''execution_state'' = Some (JStr ''busy'') \<and> JStr ''busy'' \<noteq> JStr ''idle''"
    by (simp add: fixture_defs)
  have g: "get_iopub_msg
      (scripted ''req-2'' [Received busy, Received stale_idle, Received out42, Received idle])
      ''print(6 * 7)'' (timeout_or None 600)
      = map Received [busy, stale_idle, out42] @- (Received idle ## sconst (Failed Empty))"
    by (simp add: scripted_def)
  have e: "execute
      (scripted ''req-2'' [Received busy, Received stale_idle, Received out42, Received idle])
      ''print(6 * 7)'' = Inr ''req-2''"
    by (simp add: scripted_def)
  have t': "(\<exists>e. Received idle = Failed e) \<or> (\<exists>i. Received idle = Received i \<and> is_idle ''req-2'' i)"
    using i by simp
  note t1 = idle_or_failed_receive_ends_loop [where m = idle and tok = "''req-2''"
      and a = initial and ms = "[busy, out42]" and t = "Received idle"
      and rest = "sconst (Received busy)" and s = ?s
      and a' = "absorbed ''req-2'' [busy, out42] initial"]
  note t2 = idle_or_failed_receive_ends_loop [where m = busy and tok = "''req-2''"
      and a = initial and st = "JStr ''busy''"]
  note t3 = idle_or_failed_receive_ends_loop [where m = idle and tok = "''req-2''"
      and ms = "[busy, stale_idle, out42]" and ch = "sconst (Failed Empty)"
      and c = "scripted ''req-2'' [Received busy, Received stale_idle, Received out42, Received idle]"
      and code = "''print(6 * 7)''" and timeout = None and env = test_env and w = empty_world]
  from t1 i have 1: "loop_body ''req-2'' idle initial = Break" by blast
  from t1 n2 t' have 2: "receive_loop ''req-2'' ?s initial
      = Some (Inr (absorbed ''req-2'' [busy, out42] initial))" by blast
  from t1 [THEN conjunct2, THEN conjunct1] 2
  have 3: "\<exists>ms t rest. ?s = map Received ms @- (t ## rest) \<and>
      (\<forall>x\<in>set ms. \<not> is_idle ''req-2'' x) \<and>
      ((\<exists>e. t = Failed e) \<or> (\<exists>i. t = Received i \<and> is_idle ''req-2'' i)) \<and>
      absorbed ''req-2'' [busy, out42] initial = absorbed ''req-2'' ms initial" by (rule mp)
  from t2 b have 4: "loop_body ''req-2'' busy initial = Continue initial" by blast
  from t3 i n g e have 5: "execute_code test_env ''print(6 * 7)''
       (Some (scripted ''req-2'' [Received busy, Received stale_idle, Received out42, Received idle]))
       None empty_world = Some (Inr (summary ''req-2'' [busy, stale_idle, out42]), empty_world)"
    by blast
  have 6: "\<not> is_idle ''req-2'' busy \<and> \<not> is_idle ''req-2'' stale_idle \<and> \<not> is_idle ''req-2'' out42"
    using n by simp
  from 5 s have 7: "execute_code test_env ''print(6 * 7)''
       (Some (scripted ''req-2'' [Received busy, Received stale_idle, Received out42, Received idle]))
       None empty_world
     = Some (Inr \<lparr>stdout = ''42'', stderr = [], result = JNull, display_data = [],
               error = JNull\<rparr>, empty_world)" by simp
  from i 1 2 3 4 6 7 show ?thesis by (intro conjI) (elim conjE, assumption)+
qed

theorem returns_only_on_idle_counterexample:
  "get_iopub_msg (scripted ''req-2'' [Received out42]) ''input()'' (timeout_or None 600)
     = Received out42 ## sconst (Failed Empty) \<and>
   \<not> is_idle ''req-2'' out42 \<and>
   execute_code test_env ''input()'' (Some (scripted ''req-2'' [Received out42])) None empty_world
     = Some (Inr \<lparr>stdout = ''42'', stderr = [], result = JNull, display_data = [],
               error = JNull\<rparr>, empty_world)"
proof -
  have n: "\<forall>m\<in>set [out42].
      (parent_msg_id m = Some ''req-2'' \<longrightarrow> conforms m) \<and> \<not> is_idle ''req-2'' m"
    by (simp add: is_idle_def conforms_def fixture_defs)
  have s: "summary ''req-2'' [out42] =
      \<lparr>stdout = ''42'', stderr = [], result = JNull, display_data = [], error = JNull\<rparr>"
    by (simp add: summary_def fragments_def notifications_def payloads_def failures_def
        text_of_def fixture_defs)
  have u: "sconst (Failed Empty) = Failed Empty ## sconst (Failed Empty)"
    by (subst siterate.code) simp
  have g0: "get_iopub_msg (scripted ''req-2'' [Received out42]) ''input()'' (timeout_or None 600)
      = Received out42 ## sconst (Failed Empty)"
    by (simp add: scripted_def)
  have g: "get_iopub_msg (scripted ''req-2'' [Received out42]) ''input()''
      (timeout_or None 600) = map Received [out42] @- (Failed Empty ## sconst (Failed Empty))"
    unfolding g0 by (subst u) simp
  have e: "execute (scripted ''req-2'' [Received out42]) ''input()'' = Inr ''req-2''"
    by (simp add: scripted_def)
  have "ends_loop ''req-2'' (Failed Empty)" by (simp add: ends_loop_def)
  from exec_conforming [OF e g n this, of test_env empty_world] s g0 n show ?thesis by simp
qed



text \<open>
  Claim C4. In the \<^verbatim>\<open>CellOutput\<close> that \<^verbatim>\<open>execute_code\<close> returns, \<^verbatim>\<open>stdout\<close> is the
  concatenation, in arrival order, of the texts of the request's stream fragments named
  \<^verbatim>\<open>stdout\<close>, \<^verbatim>\<open>stderr\<close> likewise for those named \<^verbatim>\<open>stderr\<close>, and
  \<^verbatim>\<open>display_data\<close> is the list of the \<^verbatim>\<open>data\<close> of the request's \<^verbatim>\<open>display_data\<close>
  messages in arrival order. The messages are those received before the loop ended,
  by the idle status or by a failed receive; each of these fragments carries a string.
\<close>

theorem outputs_in_arrival_order:
  assumes "execute c code = Inr tok"
    and "get_iopub_msg c code (timeout_or timeout 600) = map Received ms @- (t ## rest)"
    and "\<forall>m\<in>set ms. \<not> is_idle tok m"
    and "ends_loop tok t"
    and "execute_code env code (Some c) timeout w = Some (Inr out, w')"
  shows "stdout out = concat (map text_of (fragments tok ''stdout'' ms)) \<and>
    stderr out = concat (map text_of (fragments tok ''stderr'' ms)) \<and>
    map (\<lambda>m. content m ''data'') (notifications tok ''display_data'' ms)
      = map Some (display_data out) \<and>
    (\<forall>m\<in>set (fragments tok ''stdout'' ms) \<union> set (fragments tok ''stderr'' ms).
       content m ''text'' = Some (JStr (text_of m)))"
proof -
  from exec_returned [OF assms] have r: "consume tok ms initial = Running (absorbed tok ms initial)"
    and o: "out = summary tok ms" by simp_all
  from exec_returned_joins [OF assms]
  have j1: "str_join (raw_texts tok ''stdout'' ms) = Inr (stdout out)"
    and j2: "str_join (raw_texts tok ''stderr'' ms) = Inr (stderr out)" by simp_all
  have "\<forall>m\<in>set (fragments tok ''stdout'' ms). content m ''text'' = Some (JStr (text_of m))"
    using fragment_text_returned [OF r j1] by blast
  moreover
  have "\<forall>m\<in>set (fragments tok ''stderr'' ms). content m ''text'' = Some (JStr (text_of m))"
    using fragment_text_returned [OF r j2] by blast
  moreover
  have "map (\<lambda>m. content m ''data'') (notifications tok ''display_data'' ms)
      = map Some (display_data out)"
    using payloads_all [OF r, of "''display_data''"] o by (simp add: summary_def)
  ultimately show ?thesis using o by (auto simp add: summary_def)
qed

theorem outputs_in_arrival_order_witness:
  "execute_code test_env ''show()''
       (Some (scripted ''req-2''
          [Received out42, Received warn, Received picture, Received out43, Received idle]))
       None empty_world
     = Some (Inr (summary ''req-2'' [out42, warn, picture, out43]), empty_world) \<and>
   stdout (summary ''req-2'' [out42, warn, picture, out43]) = ''4243'' \<and>
   stderr (summary ''req-2'' [out42, warn, picture, out43]) = ''w'' \<and>
   display_data (summary ''req-2'' [out42, warn, picture, out43])
     = [JDict [(''image/png'', JStr ''iVBOR'')]] \<and>
   fragments ''req-2'' ''stdout'' [out42, warn, picture, out43] = [out42, out43] \<and>
   content out43 ''text'' = Some (JStr (text_of out43))"
proof -
  let ?ms = "[out42, warn, picture, out43]"
  let ?c = "scripted ''req-2''
          [Received out42, Received warn, Received picture, Received out43, Received idle]"
  have i: "ends_loop ''req-2'' (Received idle)"
    by (simp add: ends_loop_def is_idle_def fixture_defs)
  have n: "\<forall>m\<in>set ?ms.
      (parent_msg_id m = Some ''req-2'' \<longrightarrow> conforms m) \<and> \<not> is_idle ''req-2'' m"
    by (simp add: is_idle_def conforms_def fixture_defs)
  then have n': "\<forall>m\<in>set ?ms. \<not> is_idle ''req-2'' m" by blast
  have g: "get_iopub_msg ?c ''show()'' (timeout_or None 600)
      = map Received ?ms @- (Received idle ## sconst (Failed Empty))"
    by (simp add: scripted_def)
  have e: "execute ?c ''show()'' = Inr ''req-2''"
    by (simp add: scripted_def)
  have r: "execute_code test_env ''show()'' (Some ?c) None empty_world
      = Some (Inr (summary ''req-2'' ?ms), empty_world)"
    using exec_conforming [OF e g n i] .
  have f: "fragments ''req-2'' ''stdout'' ?ms = [out42, out43]"
    by (simp add: fragments_def notifications_def fixture_defs)
  have f': "fragments ''req-2'' ''stderr'' ?ms = [warn]"
    by (simp add: fragments_def notifications_def fixture_defs)
  have d: "notifications ''req-2'' ''display_data'' ?ms = [picture]"
    by (simp add: notifications_def fixture_defs)
  have x: "text_of out42 = ''42''" "text_of out43 = ''43''" "text_of warn = ''w''"
    "content picture ''data'' = Some (JDict [(''image/png'', JStr ''iVBOR'')])"
    by (simp_all add: text_of_def fixture_defs)
  from outputs_in_arrival_order [OF e g n' i r] r f f' d x show ?thesis
    by auto
qed

section \<open>Claims about the session supervisor and the store\<close>

text \<open>
  Claim C5. The claim holds that after any \<^verbatim>\<open>stop_kernel\<close> the store has no record,
  \<^verbatim>\<open>is_kernel_running\<close> is \<^verbatim>\<open>False\<close> and a second \<^verbatim>\<open>stop_kernel\<close> returns
  \<^verbatim>\<open>False\<close>. \<^verbatim>\<open>stop_kernel\<close> calls \<^verbatim>\<open>load_state\<close> outside every \<^verbatim>\<open>try\<close>, so where
  \<^verbatim>\<open>load_state\<close> raises, \<^verbatim>\<open>stop_kernel\<close> raises the same exception and the state
  file stays: on a record whose process id is beyond a C \<^verbatim>\<open>int\<close> and on a state file
  that is not UTF-8, \<^verbatim>\<open>stop_kernel\<close> raises, \<^verbatim>\<open>is_kernel_running\<close> raises, and a
  second \<^verbatim>\<open>stop_kernel\<close> raises again.
\<close>

theorem stop_kernel_raises_and_keeps_record:
  "stop_kernel test_env overflow_world = (Inl OverflowError, overflow_world) \<and>
   stop_kernel test_env binary_world = (Inl UnicodeDecodeError, binary_world) \<and>
   state_file overflow_world \<noteq> None \<and> state_file binary_world \<noteq> None \<and>
   is_kernel_running test_env overflow_world = (Inl OverflowError, overflow_world) \<and>
   stop_kernel test_env (snd (stop_kernel test_env overflow_world))
     = (Inl OverflowError, overflow_world)"
proof -
  have 1: "stop_kernel test_env overflow_world = (Inl OverflowError, overflow_world)"
    and 2: "is_kernel_running test_env overflow_world = (Inl OverflowError, overflow_world)"
    using stop_load_raises [OF load_overflow] by simp_all
  have 3: "stop_kernel test_env binary_world = (Inl UnicodeDecodeError, binary_world)"
    using stop_load_raises [OF load_binary] by simp
  have 4: "state_file overflow_world \<noteq> None" "state_file binary_world \<noteq> None"
    by (simp_all add: store_fixture_defs)
  from 1 2 3 4 show ?thesis by simp
qed

text \<open>
  Claim C6. Whenever \<^verbatim>\<open>load_state\<close> returns a record, \<^verbatim>\<open>start_kernel\<close> raises the
  \<^verbatim>\<open>RuntimeError\<close> "A kernel is already running" and leaves the world, the state file
  included, as it was, so that any number of further calls do the same. When
  \<^verbatim>\<open>load_state\<close> returns \<^verbatim>\<open>None\<close> and the kernel manager starts a kernel,
  \<^verbatim>\<open>start_kernel\<close> writes the record of its connection file, the kernel name and its
  process id to the state file and returns that record. After a successful start,
  while that process can be signalled and the connection file exists, a second start
  fails, and so does every further one.
\<close>

theorem start_kernel_single_session:
  "(load_state env w = (Inr (Some st), w1) \<longrightarrow>
      start_kernel env name w = (Inl already_running, w) \<and>
      start_again n env name w = (replicate n (Inl already_running), w)) \<and>
   (load_state env w = (Inr None, w1) \<and> km_start_kernel env name w1 = (Inr (cf, p), w2) \<longrightarrow>
      start_kernel env name w =
        (Inr \<lparr>connection_file = JStr cf, kernel_name = JStr name, pid = JInt p\<rparr>,
         w2\<lparr>state_file := Some (Text (JSON (asdict
           \<lparr>connection_file = JStr cf, kernel_name = JStr name, pid = JInt p\<rparr>)))\<rparr>)) \<and>
   (start_kernel env name w = (Inr st', w3) \<and> kill_check env (pid st') w3 = None \<and>
    connection_file st' = JStr cf' \<and> path_exists env cf' w3 = Inr True \<longrightarrow>
      start_kernel env name' w3 = (Inl already_running, w3) \<and>
      start_again n env name' w3 = (replicate n (Inl already_running), w3))"
proof (intro conjI impI)
  assume "load_state env w = (Inr (Some st), w1)"
  then show "start_kernel env name w = (Inl already_running, w)"
    and "start_again n env name w = (replicate n (Inl already_running), w)"
    by (rule start_running, rule start_again_running)
next
  assume "load_state env w = (Inr None, w1) \<and> km_start_kernel env name w1 = (Inr (cf, p), w2)"
  then show "start_kernel env name w =
        (Inr \<lparr>connection_file = JStr cf, kernel_name = JStr name, pid = JInt p\<rparr>,
         w2\<lparr>state_file := Some (Text (JSON (asdict
           \<lparr>connection_file = JStr cf, kernel_name = JStr name, pid = JInt p\<rparr>)))\<rparr>)"
    by (simp add: start_fresh)
next
  assume "start_kernel env name w = (Inr st', w3) \<and> kill_check env (pid st') w3 = None \<and>
    connection_file st' = JStr cf' \<and> path_exists env cf' w3 = Inr True"
  then have l: "load_state env w3 = (Inr (Some st'), w3)"
    using load_after_start [of env name w st' w3 cf'] by blast
  then show "start_kernel env name' w3 = (Inl already_running, w3)"
    and "start_again n env name' w3 = (replicate n (Inl already_running), w3)"
    by (rule start_running, rule start_again_running)
qed

theorem start_kernel_single_session_witness:
  "start_kernel test_env ''python3'' cleared_world = (Inr record_7, running_world) \<and>
   start_kernel test_env ''python3'' running_world = (Inl already_running, running_world) \<and>
   start_again 3 test_env ''ir'' running_world
     = ([Inl already_running, Inl already_running, Inl already_running], running_world)"
proof -
  have l: "load_state test_env cleared_world = (Inr None, cleared_world)"
    by (simp add: load_cases store_fixture_defs)
  have k: "km_start_kernel test_env ''python3'' cleared_world
      = (Inr (''/run/kernel-7.json'', 4242),
         \<lparr>state_file = None, machine = ({4242}, {''/run/kernel-7.json''})\<rparr>)"
    by (simp add: store_fixture_defs)
  have r: "\<lparr>connection_file = JStr ''/run/kernel-7.json'', kernel_name = JStr ''python3'',
      pid = JInt 4242\<rparr> = record_7"
    by (simp add: record_7_def)
  have w: "\<lparr>state_file = None, machine = ({4242}, {''/run/kernel-7.json''})\<rparr>
      \<lparr>state_file := Some (Text (JSON (asdict record_7)))\<rparr> = running_world"
    by (simp add: running_world_def)
  note t1 = start_kernel_single_session [where env = test_env and w = cleared_world
      and ?w1.0 = cleared_world and name = "''python3''" and cf = "''/run/kernel-7.json''"
      and p = 4242
      and ?w2.0 = "\<lparr>state_file = None, machine = ({4242}, {''/run/kernel-7.json''})\<rparr>"
      and st' = record_7 and ?w3.0 = running_world and cf' = "''/run/kernel-7.json''"
      and name' = "''python3''" and n = 3]
  note t2 = start_kernel_single_session [where env = test_env and w = running_world
      and st = record_7 and ?w1.0 = running_world and name = "''ir''" and n = 3]
  from t1 l k have 1: "start_kernel test_env ''python3'' cleared_world = (Inr record_7, running_world)"
    unfolding r w by blast
  have p: "kill_check test_env (pid record_7) running_world = None"
    "connection_file record_7 = JStr ''/run/kernel-7.json''"
    "path_exists test_env ''/run/kernel-7.json'' running_world = Inr True"
    by (simp_all add: store_fixture_defs)
  from t1 1 p have 2: "start_kernel test_env ''python3'' running_world
      = (Inl already_running, running_world)" by blast
  from t2 load_running have "start_again 3 test_env ''ir'' running_world
      = (replicate 3 (Inl already_running), running_world)" by blast
  then have 3: "start_again 3 test_env ''ir'' running_world
     = ([Inl already_running, Inl already_running, Inl already_running], running_world)"
    by (simp add: numeral_3_eq_3)
  from 1 2 3 show ?thesis by simp
qed

text \<open>
  Claim C7. The claim holds that \<^verbatim>\<open>load_state\<close> returns \<^verbatim>\<open>None\<close> and deletes the
  record, never raising, when the record is malformed. The two \<^verbatim>\<open>except\<close> clauses
  name \<^verbatim>\<open>OSError\<close>, \<^verbatim>\<open>ProcessLookupError\<close>, \<^verbatim>\<open>JSONDecodeError\<close>, \<^verbatim>\<open>KeyError\<close> and
  \<^verbatim>\<open>TypeError\<close> only. On a state file that is not UTF-8 \<^verbatim>\<open>read_text\<close> raises
  \<^verbatim>\<open>UnicodeDecodeError\<close>, on a process id beyond a C \<^verbatim>\<open>int\<close> the probe raises
  \<^verbatim>\<open>OverflowError\<close>, on a text nested too deeply \<^verbatim>\<open>json.loads\<close> raises
  \<^verbatim>\<open>RecursionError\<close>: each leaves \<^verbatim>\<open>load_state\<close> and the state file stays, whereas
  a text that is not JSON is deleted and gives \<^verbatim>\<open>None\<close>.
\<close>

theorem load_state_surfaces_errors:
  "load_state test_env binary_world = (Inl UnicodeDecodeError, binary_world) \<and>
   state_file binary_world = Some (Unreadable UnicodeDecodeError) \<and>
   load_state test_env overflow_world = (Inl OverflowError, overflow_world) \<and>
   state_file overflow_world \<noteq> None \<and>
   load_state test_env (running_world\<lparr>state_file := Some (Text TooDeep)\<rparr>)
     = (Inl RecursionError, running_world\<lparr>state_file := Some (Text TooDeep)\<rparr>) \<and>
   load_state test_env (running_world\<lparr>state_file := Some (Text NotJSON)\<rparr>)
     = (Inr None, running_world\<lparr>state_file := None\<rparr>)"
proof -
  have 1: "state_file binary_world = Some (Unreadable UnicodeDecodeError)"
    "state_file overflow_world \<noteq> None"
    by (simp_all add: store_fixture_defs)
  have 2: "load_state test_env (running_world\<lparr>state_file := Some (Text TooDeep)\<rparr>)
     = (Inl RecursionError, running_world\<lparr>state_file := Some (Text TooDeep)\<rparr>)"
    by (simp add: load_cases)
  have 3: "load_state test_env (running_world\<lparr>state_file := Some (Text NotJSON)\<rparr>)
     = (Inr None, running_world\<lparr>state_file := None\<rparr>)"
    by (simp add: load_cases clear_state_def)
  from load_binary load_overflow 1 2 3 show ?thesis by simp
qed




section \<open>Claims about single values and failed receives\<close>

text \<open>
  Claim C9. In the \<^verbatim>\<open>CellOutput\<close> that \<^verbatim>\<open>execute_code\<close> returns: when the messages
  received for the request hold no \<^verbatim>\<open>execute_result\<close>, \<^verbatim>\<open>result\<close> is \<^verbatim>\<open>None\<close>; when
  they hold exactly one, \<^verbatim>\<open>result\<close> is its \<^verbatim>\<open>data\<close>. Likewise \<^verbatim>\<open>error\<close> is \<^verbatim>\<open>None\<close>
  without an \<^verbatim>\<open>error\<close> message and the dictionary of the one \<^verbatim>\<open>error\<close> message when
  there is exactly one; in every case \<^verbatim>\<open>error\<close> is \<^verbatim>\<open>None\<close> or the dictionary of a
  single \<^verbatim>\<open>error\<close> message of the request.
\<close>

theorem value_and_failure_set_once:
  assumes "execute c code = Inr tok"
    and "get_iopub_msg c code (timeout_or timeout 600) = map Received ms @- (t ## rest)"
    and "\<forall>m\<in>set ms. \<not> is_idle tok m"
    and "ends_loop tok t"
    and "execute_code env code (Some c) timeout w = Some (Inr out, w')"
  shows "(notifications tok ''execute_result'' ms = [] \<longrightarrow> result out = JNull) \<and>
    (notifications tok ''execute_result'' ms = [m] \<longrightarrow> content m ''data'' = Some (result out)) \<and>
    (notifications tok ''error'' ms = [] \<longrightarrow> error out = JNull) \<and>
    (notifications tok ''error'' ms = [m'] \<longrightarrow> failure_of m' = Some (error out)) \<and>
    (error out = JNull \<or>
       (\<exists>f\<in>set (notifications tok ''error'' ms). failure_of f = Some (error out)))"
proof -
  from exec_returned [OF assms] have r: "consume tok ms initial = Running (absorbed tok ms initial)"
    and o: "out = summary tok ms" by simp_all
  have p: "map (\<lambda>m. content m ''data'') (notifications tok ''execute_result'' ms)
      = map Some (payloads tok ''execute_result'' ms)"
    using payloads_all [OF r, of "''execute_result''"] by simp
  have f: "map failure_of (notifications tok ''error'' ms) = map Some (failures tok ms)"
    using failures_all [OF r] .
  have 1: "notifications tok ''execute_result'' ms = [] \<longrightarrow> result out = JNull"
    using o by (simp add: summary_def payloads_def)
  have 2: "notifications tok ''execute_result'' ms = [m] \<longrightarrow> content m ''data'' = Some (result out)"
  proof
    assume n: "notifications tok ''execute_result'' ms = [m]"
    with p obtain d where "payloads tok ''execute_result'' ms = [d]" "content m ''data'' = Some d"
      by (cases "payloads tok ''execute_result'' ms") auto
    with o show "content m ''data'' = Some (result out)" by (simp add: summary_def)
  qed
  have 3: "notifications tok ''error'' ms = [] \<longrightarrow> error out = JNull"
    using o by (simp add: summary_def failures_def)
  have 4: "notifications tok ''error'' ms = [m'] \<longrightarrow> failure_of m' = Some (error out)"
  proof
    assume n: "notifications tok ''error'' ms = [m']"
    with f obtain d where "failures tok ms = [d]" "failure_of m' = Some d"
      by (cases "failures tok ms") auto
    with o show "failure_of m' = Some (error out)" by (simp add: summary_def)
  qed
  have 5: "error out = JNull \<or>
       (\<exists>f\<in>set (notifications tok ''error'' ms). failure_of f = Some (error out))"
  proof (cases "failures tok ms = []")
    case True
    with o show ?thesis by (simp add: summary_def)
  next
    case False
    then have "last (failures tok ms) \<in> set (failures tok ms)" by simp
    then have "Some (last (failures tok ms)) \<in> set (map failure_of (notifications tok ''error'' ms))"
      using f by simp
    then obtain x where "x \<in> set (notifications tok ''error'' ms)"
      "failure_of x = Some (last (failures tok ms))" by auto
    with False o show ?thesis by (auto simp add: summary_def)
  qed
  from 1 2 3 4 5 show ?thesis by blast
qed

theorem value_and_failure_set_once_witness:
  "execute_code test_env ''x''
       (Some (scripted ''req-2'' [Received value42, Received name_error, Received idle]))
       None empty_world
     = Some (Inr (summary ''req-2'' [value42, name_error]), empty_world) \<and>
   notifications ''req-2'' ''execute_result'' [value42, name_error] = [value42] \<and>
   notifications ''req-2'' ''error'' [value42, name_error] = [name_error] \<and>
   result (summary ''req-2'' [value42, name_error]) = JDict [(''text/plain'', JStr ''42'')] \<and>
   error (summary ''req-2'' [value42, name_error])
     = JDict [(''ename'', JStr ''NameError''), (''evalue'', JStr ''x''), (''traceback'', JList [])]"
proof -
  let ?ms = "[value42, name_error]"
  let ?c = "scripted ''req-2'' [Received value42, Received name_error, Received idle]"
  have i: "ends_loop ''req-2'' (Received idle)"
    by (simp add: ends_loop_def is_idle_def fixture_defs)
  have n: "\<forall>m\<in>set ?ms.
      (parent_msg_id m = Some ''req-2'' \<longrightarrow> conforms m) \<and> \<not> is_idle ''req-2'' m"
    by (simp add: is_idle_def conforms_def fixture_defs)
  then have n': "\<forall>m\<in>set ?ms. \<not> is_idle ''req-2'' m" by blast
  have g: "get_iopub_msg ?c ''x'' (timeout_or None 600)
      = map Received ?ms @- (Received idle ## sconst (Failed Empty))"
    by (simp add: scripted_def)
  have e: "execute ?c ''x'' = Inr ''req-2''"
    by (simp add: scripted_def)
  have r: "execute_code test_env ''x'' (Some ?c) None empty_world
      = Some (Inr (summary ''req-2'' ?ms), empty_world)"
    using exec_conforming [OF e g n i] .
  have v: "notifications ''req-2'' ''execute_result'' ?ms = [value42]"
    by (simp add: notifications_def fixture_defs)
  have f: "notifications ''req-2'' ''error'' ?ms = [name_error]"
    by (simp add: notifications_def fixture_defs)
  have x: "content value42 ''data'' = Some (JDict [(''text/plain'', JStr ''42'')])"
    "failure_of name_error = Some (JDict [(''ename'', JStr ''NameError''),
       (''evalue'', JStr ''x''), (''traceback'', JList [])])"
    by (simp_all add: failure_of_def fixture_defs)
  from value_and_failure_set_once [OF e g n' i r, of value42 name_error] r v f x
  show ?thesis by simp
qed

text \<open>
  Claim C10. Whatever exception a receive raises, the loop ends there and returns the
  variables as they are, so \<^verbatim>\<open>execute_code\<close> returns the output that the conforming
  messages received so far add up to, and nothing raised by the receive reaches the
  caller. The result is the same as when the receive had timed out at that point.
\<close>

theorem receive_error_returns_partial_result:
  "receive_loop tok (Failed e ## rest) a = Some (Inr a) \<and>
   (execute c code = Inr tok \<and>
    get_iopub_msg c code (timeout_or timeout 600) = map Received ms @- (Failed e ## rest) \<and>
    (\<forall>m\<in>set ms. (parent_msg_id m = Some tok \<longrightarrow> conforms m) \<and> \<not> is_idle tok m) \<longrightarrow>
      execute_code env code (Some c) timeout w = Some (Inr (summary tok ms), w)) \<and>
   (execute c code = execute c' code \<and>
    get_iopub_msg c code (timeout_or timeout 600) = xs @- (Failed e ## rest) \<and>
    get_iopub_msg c' code (timeout_or timeout 600) = xs @- (Failed Empty ## rest') \<longrightarrow>
      execute_code env code (Some c) timeout w = execute_code env code (Some c') timeout w)"
proof (intro conjI impI)
  show "receive_loop tok (Failed e ## rest) a = Some (Inr a)" by (rule loop_Failed)
next
  assume h: "execute c code = Inr tok \<and>
    get_iopub_msg c code (timeout_or timeout 600) = map Received ms @- (Failed e ## rest) \<and>
    (\<forall>m\<in>set ms. (parent_msg_id m = Some tok \<longrightarrow> conforms m) \<and> \<not> is_idle tok m)"
  have "ends_loop tok (Failed e)" by (simp add: ends_loop_def)
  with h show "execute_code env code (Some c) timeout w = Some (Inr (summary tok ms), w)"
    using exec_conforming [of c code tok timeout ms "Failed e" rest env w] by blast
next
  assume h: "execute c code = execute c' code \<and>
    get_iopub_msg c code (timeout_or timeout 600) = xs @- (Failed e ## rest) \<and>
    get_iopub_msg c' code (timeout_or timeout 600) = xs @- (Failed Empty ## rest')"
  then show "execute_code env code (Some c) timeout w = execute_code env code (Some c') timeout w"
    using loop_fail_indep [of _ xs e rest initial Empty rest']
    by (simp add: execute_code_Some execute_on_def split: sum.splits)
qed

theorem receive_error_returns_partial_result_witness:
  "receive_loop ''req-2'' (Failed (OtherError ''channel closed'') ## sconst (Received idle)) initial
     = Some (Inr initial) \<and>
   execute_code test_env ''1 + 1''
       (Some (scripted ''req-2'' [Received out42, Failed (OtherError ''channel closed'')]))
       (Some 5) empty_world
     = Some (Inr \<lparr>stdout = ''42'', stderr = [], result = JNull, display_data = [],
               error = JNull\<rparr>, empty_world) \<and>
   execute_code test_env ''1 + 1''
       (Some (scripted ''req-2'' [Received out42, Failed (OtherError ''channel closed'')]))
       (Some 5) empty_world
     = execute_code test_env ''1 + 1''
       (Some (scripted ''req-2'' [Received out42, Failed Empty])) (Some 5) empty_world"
proof -
  have n: "\<forall>m\<in>set [out42].
      (parent_msg_id m = Some ''req-2'' \<longrightarrow> conforms m) \<and> \<not> is_idle ''req-2'' m"
    by (simp add: is_idle_def conforms_def fixture_defs)
  have s: "summary ''req-2'' [out42] =
      \<lparr>stdout = ''42'', stderr = [], result = JNull, display_data = [], error = JNull\<rparr>"
    by (simp add: summary_def fragments_def notifications_def payloads_def failures_def
        text_of_def fixture_defs)
  have g: "get_iopub_msg
      (scripted ''req-2'' [Received out42, Failed (OtherError ''channel closed'')])
      ''1 + 1'' (timeout_or (Some 5) 600)
      = map Received [out42] @- (Failed (OtherError ''channel closed'') ## sconst (Failed Empty))"
    by (simp add: scripted_def)
  have g2: "get_iopub_msg
      (scripted ''req-2'' [Received out42, Failed (OtherError ''channel closed'')])
      ''1 + 1'' (timeout_or (Some 5) 600)
      = [Received out42] @- (Failed (OtherError ''channel closed'') ## sconst (Failed Empty))"
    by (simp add: scripted_def)
  have g': "get_iopub_msg (scripted ''req-2'' [Received out42, Failed Empty])
      ''1 + 1'' (timeout_or (Some 5) 600)
      = [Received out42] @- (Failed Empty ## sconst (Failed Empty))"
    by (simp add: scripted_def)
  have e: "execute (scripted ''req-2'' [Received out42, Failed (OtherError ''channel closed'')])
      ''1 + 1'' = Inr ''req-2''"
    by (simp add: scripted_def)
  have e': "execute (scripted ''req-2'' [Received out42, Failed (OtherError ''channel closed'')])
      ''1 + 1'' = execute (scripted ''req-2'' [Received out42, Failed Empty]) ''1 + 1''"
    by (simp add: scripted_def)
  note t = receive_error_returns_partial_result [where tok = "''req-2''"
      and e = "OtherError ''channel closed''" and a = initial
      and c = "scripted ''req-2'' [Received out42, Failed (OtherError ''channel closed'')]"
      and c' = "scripted ''req-2'' [Received out42, Failed Empty]"
      and code = "''1 + 1''" and timeout = "Some 5" and ms = "[out42]"
      and xs = "[Received out42]" and rest = "sconst (Failed Empty)"
      and rest' = "sconst (Failed Empty)" and env = test_env and w = empty_world]
  note t0 = receive_error_returns_partial_result [where tok = "''req-2''"
      and e = "OtherError ''channel closed''" and a = initial
      and rest = "sconst (Received idle)"]
  from t0 have 1: "receive_loop ''req-2''
      (Failed (OtherError ''channel closed'') ## sconst (Received idle)) initial
     = Some (Inr initial)" by blast
  from t e g n have 2: "execute_code test_env ''1 + 1''
       (Some (scripted ''req-2'' [Received out42, Failed (OtherError ''channel closed'')]))
       (Some 5) empty_world = Some (Inr (summary ''req-2'' [out42]), empty_world)" by blast
  from t e' g2 g' have 3: "execute_code test_env ''1 + 1''
       (Some (scripted ''req-2'' [Received out42, Failed (OtherError ''channel closed'')]))
       (Some 5) empty_world
     = execute_code test_env ''1 + 1''
       (Some (scripted ''req-2'' [Received out42, Failed Empty])) (Some 5) empty_world" by blast
  from 1 2 3 s show ?thesis by simp
qed

end
